theory Spec2Isabelle
  imports Complex_Main "HOL-Library.Multiset"
begin

section \<open>Host functions of the language\<close>

text \<open>
  The analytics engine (\<^verbatim>\<open>utils/analytics.ts\<close>) computes with JavaScript numbers. They are
  modelled as reals: rounding, overflow and NaN inputs of IEEE doubles are abstracted, and
  the one division of the engine that is not guarded against a zero divisor returns an
  option, \<open>None\<close> standing for the non-finite results (\<^verbatim>\<open>Infinity\<close>, \<^verbatim>\<open>NaN\<close>). Where a
  property of a period summary depends on the rounding, the period queries are taken with
  the rounding to doubles as well (section \<open>The queries on a host\<close>).
\<close>

definition Math_round :: "real \<Rightarrow> int" where
  \<comment> \<open>\<^verbatim>\<open>Math.round\<close>: the nearest integer, halves rounded towards plus infinity.\<close>
  "Math_round x = \<lfloor>x + 1 / 2\<rfloor>"

definition Math_ceil :: "real \<Rightarrow> int" where
  "Math_ceil x = \<lceil>x\<rceil>"

fun Math_max :: "real \<Rightarrow> real list \<Rightarrow> real" where
  \<comment> \<open>\<^verbatim>\<open>Math.max(x, ...xs)\<close> on at least one argument.\<close>
  "Math_max x [] = x"
| "Math_max x (y # ys) = Math_max (max x y) ys"

text \<open>
  \<^verbatim>\<open>Array.prototype.sort\<close> is stable. With a comparator \<^verbatim>\<open>cmp\<close> it is modelled as the stable
  insertion sort below, where \<open>gt a b\<close> says that \<^verbatim>\<open>cmp(a, b)\<close> is positive (a result that
  is zero, negative or NaN leaves \<open>a\<close> before \<open>b\<close>). Where the comparator is not a
  consistent order, as with the NaN results for unparseable dates, the order a host leaves
  is its own choice, and the one below is one of them; it is always a permutation of the
  input.
\<close>

fun insert_js :: "('a \<Rightarrow> 'a \<Rightarrow> bool) \<Rightarrow> 'a \<Rightarrow> 'a list \<Rightarrow> 'a list" where
  "insert_js gt x [] = [x]"
| "insert_js gt x (y # ys) = (if gt x y then y # insert_js gt x ys else x # y # ys)"

definition sort_js :: "('a \<Rightarrow> 'a \<Rightarrow> bool) \<Rightarrow> 'a list \<Rightarrow> 'a list" where
  "sort_js gt xs = foldr (insert_js gt) xs []"

subsection \<open>Dates\<close>

text \<open>
  A \<^verbatim>\<open>Date\<close> object is kept by its local calendar fields (months count from 0) and the
  milliseconds since local midnight; its time value \<open>getTime\<close> counts milliseconds on the
  local time line (no daylight-saving shifts). The constructor and \<^verbatim>\<open>setDate\<close> carry
  out-of-range months and days into the neighbouring months, as the language does. The
  time values of a host are those of UTC: they differ from the ones here by the zone
  offset of the host at the date, and a span between two dates by the change of that
  offset from one to the other, which is the parameter \<open>dstShift\<close> of a host below.
\<close>

type_synonym time = int

record Date =
  year :: int
  month :: int
  day :: int
  msec :: int

definition isLeap :: "int \<Rightarrow> bool" where
  "isLeap y = (y mod 4 = 0 \<and> (y mod 100 \<noteq> 0 \<or> y mod 400 = 0))"

definition daysInMonth :: "int \<Rightarrow> int \<Rightarrow> int" where
  "daysInMonth y m =
     (if m = 1 then (if isLeap y then 29 else 28)
      else if m = 3 \<or> m = 5 \<or> m = 8 \<or> m = 10 then 30 else 31)"

definition dayFromYear :: "int \<Rightarrow> int" where
  "dayFromYear y =
     365 * (y - 1970) + (y - 1969) div 4 - (y - 1901) div 100 + (y - 1601) div 400"

definition daysBeforeMonth :: "int \<Rightarrow> int \<Rightarrow> int" where
  "daysBeforeMonth y m = sum_list (map (daysInMonth y) [0..m - 1])"

definition dayNumber :: "Date \<Rightarrow> int" where
  "dayNumber d = dayFromYear (year d) + daysBeforeMonth (year d) (month d) + day d - 1"

definition msPerDay :: int where
  "msPerDay = 1000 * 60 * 60 * 24"

definition getTime :: "Date \<Rightarrow> time" where
  "getTime d = dayNumber d * msPerDay + msec d"

definition getDay :: "Date \<Rightarrow> int" where
  \<comment> \<open>day of the week, 0 for Sunday; 1 January 1970 was a Thursday\<close>
  "getDay d = (dayNumber d + 4) mod 7"

definition prevMonth :: "int \<Rightarrow> int \<Rightarrow> int \<times> int" where
  "prevMonth y m = (if m = 0 then (y - 1, 11) else (y, m - 1))"

definition nextMonth :: "int \<Rightarrow> int \<Rightarrow> int \<times> int" where
  "nextMonth y m = (if m = 11 then (y + 1, 0) else (y, m + 1))"

function normDay :: "int \<Rightarrow> int \<Rightarrow> int \<Rightarrow> int \<times> int \<times> int" where
  "normDay y m d =
     (if d < 1 then
        (case prevMonth y m of (y', m') \<Rightarrow> normDay y' m' (d + daysInMonth y' m'))
      else if daysInMonth y m < d then
        (case nextMonth y m of (y', m') \<Rightarrow> normDay y' m' (d - daysInMonth y m))
      else (y, m, d))"
  by pat_completeness auto
termination
  apply (relation "measure (\<lambda>(y, m, d). nat (if d < 1 then 32 - d else d))")
    apply simp
   apply (auto simp: daysInMonth_def)
  done

declare normDay.simps [simp del]

definition yearOf :: "int \<Rightarrow> int" where
  \<comment> \<open>in the constructor, a year from 0 to 99 means 1900 + y\<close>
  "yearOf y = (if 0 \<le> y \<and> y \<le> 99 then 1900 + y else y)"

definition Date_ymd :: "int \<Rightarrow> int \<Rightarrow> int \<Rightarrow> Date" where
  \<comment> \<open>\<^verbatim>\<open>new Date(y, m, d)\<close>\<close>
  "Date_ymd y m d =
     (case normDay (yearOf y + m div 12) (m mod 12) d of
        (y', m', d') \<Rightarrow> \<lparr>year = y', month = m', day = d', msec = 0\<rparr>)"

definition setDate :: "Date \<Rightarrow> int \<Rightarrow> Date" where
  "setDate dt n =
     (case normDay (year dt) (month dt) n of
        (y', m', d') \<Rightarrow> dt\<lparr>year := y', month := m', day := d'\<rparr>)"

definition setHours :: "Date \<Rightarrow> int \<Rightarrow> int \<Rightarrow> int \<Rightarrow> int \<Rightarrow> Date" where
  \<comment> \<open>for arguments within a day, the only use the engine makes of it\<close>
  "setHours dt h mi s ms = dt\<lparr>msec := ((h * 60 + mi) * 60 + s) * 1000 + ms\<rparr>"

definition validDate :: "Date \<Rightarrow> bool" where
  "validDate d = (0 \<le> month d \<and> month d \<le> 11 \<and> 1 \<le> day d \<and> day d \<le> daysInMonth (year d) (month d)
     \<and> 0 \<le> msec d \<and> msec d < msPerDay)"

section \<open>Data model\<close>

datatype TransactionType = income | expense

record Transaction =
  id_t :: string
  amount :: real
  category :: string
  description :: string
  date :: string
  type_t :: TransactionType
  source :: "string option"

record CategorySummary =
  category_s :: string
  amount_s :: real
  count_s :: nat
  percentage :: real

record TimeBasedAnalytics =
  period :: string
  totalIncome :: real
  totalExpenses :: real
  netAmount :: real
  transactionCount :: nat
  topCategories :: "CategorySummary list"
  averageDaily :: "real option"
  savingsRate :: real

record Growth =
  income_g :: real
  expenses_g :: real
  savings_g :: real

record MonthlyComparison =
  current :: TimeBasedAnalytics
  previous :: TimeBasedAnalytics
  growth :: Growth

text \<open>
  \<^verbatim>\<open>new Date(s)\<close> on a string is the host's parser. It is a parameter \<open>P\<close> of the engine:
  \<open>P s\<close> is the time value of the parsed date, \<open>None\<close> for an invalid date (whose time
  value is NaN, so that every comparison with it is false).
\<close>

type_synonym parser = "string \<Rightarrow> time option"

section \<open>The analytics engine\<close>

record AnalyticsEngine =
  transactions :: "Transaction list"

definition byDateDesc :: "parser \<Rightarrow> Transaction \<Rightarrow> Transaction \<Rightarrow> bool" where
  \<comment> \<open>\<^verbatim>\<open>new Date(b.date).getTime() - new Date(a.date).getTime()\<close> is positive\<close>
  "byDateDesc P a b =
     (case (P (date b), P (date a)) of (Some tb, Some ta) \<Rightarrow> 0 < tb - ta | _ \<Rightarrow> False)"

definition new_AnalyticsEngine :: "parser \<Rightarrow> Transaction list \<Rightarrow> AnalyticsEngine" where
  "new_AnalyticsEngine P txs = \<lparr>transactions = sort_js (byDateDesc P) txs\<rparr>"

definition getTransactionsInPeriod ::
  "parser \<Rightarrow> AnalyticsEngine \<Rightarrow> Date \<Rightarrow> Date \<Rightarrow> Transaction list" where
  "getTransactionsInPeriod P e startDate endDate =
     filter (\<lambda>t. case P (date t) of
                    None \<Rightarrow> False
                  | Some transactionDate \<Rightarrow>
                      getTime startDate \<le> transactionDate \<and> transactionDate \<le> getTime endDate)
       (transactions e)"

definition sumAbs :: "Transaction list \<Rightarrow> real" where
  \<comment> \<open>\<^verbatim>\<open>.reduce((sum, t) => sum + Math.abs(t.amount), 0)\<close>\<close>
  "sumAbs ts = foldl (\<lambda>sum t. sum + \<bar>amount t\<bar>) 0 ts"

text \<open>
  The \<^verbatim>\<open>Map\<close> of the category analysis keeps its keys in insertion order: an association
  list, where setting an existing key keeps its place and a new key goes last.
\<close>

fun map_get :: "('k \<times> 'v) list \<Rightarrow> 'k \<Rightarrow> 'v option" where
  "map_get [] k = None"
| "map_get ((k', v) # m) k = (if k' = k then Some v else map_get m k)"

fun map_set :: "'k \<Rightarrow> 'v \<Rightarrow> ('k \<times> 'v) list \<Rightarrow> ('k \<times> 'v) list" where
  "map_set k v [] = [(k, v)]"
| "map_set k v ((k', v') # m) = (if k' = k then (k, v) # m else (k', v') # map_set k v m)"

definition addCategory :: "(string \<times> real \<times> nat) list \<Rightarrow> Transaction \<Rightarrow> (string \<times> real \<times> nat) list" where
  \<comment> \<open>the body of the \<^verbatim>\<open>forEach\<close>\<close>
  "addCategory categoryMap t =
     (case (case map_get categoryMap (category t) of None \<Rightarrow> (0, 0) | Some ex \<Rightarrow> ex) of
        (a, c) \<Rightarrow> map_set (category t) (a + \<bar>amount t\<bar>, c + 1) categoryMap)"

definition byAmountDesc :: "CategorySummary \<Rightarrow> CategorySummary \<Rightarrow> bool" where
  \<comment> \<open>\<^verbatim>\<open>b.amount - a.amount\<close> is positive\<close>
  "byAmountDesc a b = (0 < amount_s b - amount_s a)"

definition calculatePeriodAnalytics :: "Transaction list \<Rightarrow> string \<Rightarrow> int \<Rightarrow> TimeBasedAnalytics" where
  "calculatePeriodAnalytics ts periodName days =
     (let income' = sumAbs (filter (\<lambda>t. type_t t = income) ts);
          expenses = sumAbs (filter (\<lambda>t. type_t t = expense) ts);
          netAmount' = income' - expenses;
          savingsRate' = (if 0 < income' then (netAmount' / income') * 100 else 0);
          averageDaily' = (if days = 0 then None else Some (expenses / real_of_int days));
          categoryMap = foldl addCategory [] (filter (\<lambda>t. type_t t = expense) ts);
          topCategories' =
            take 5 (sort_js byAmountDesc
              (map (\<lambda>(cat, a, c).
                     \<lparr>category_s = cat, amount_s = a, count_s = c,
                      percentage = (if 0 < expenses then (a / expenses) * 100 else 0)\<rparr>)
                 categoryMap))
      in \<lparr>period = periodName, totalIncome = income', totalExpenses = expenses,
          netAmount = netAmount', transactionCount = length ts,
          topCategories = topCategories', averageDaily = averageDaily',
          savingsRate = savingsRate'\<rparr>)"


definition windowAnalytics ::
  "parser \<Rightarrow> AnalyticsEngine \<Rightarrow> Date \<Rightarrow> Date \<Rightarrow> string \<Rightarrow> int \<Rightarrow> TimeBasedAnalytics" where
  \<comment> \<open>the two steps every query ends with: filter the window, then aggregate\<close>
  "windowAnalytics P e startDate endDate periodName days =
     calculatePeriodAnalytics (getTransactionsInPeriod P e startDate endDate) periodName days"

definition weekStart :: "Date \<Rightarrow> Date" where
  "weekStart now = setHours (setDate now (day now - getDay now)) 0 0 0 0"

definition weekEnd :: "Date \<Rightarrow> Date" where
  "weekEnd startOfWeek = setHours (setDate startOfWeek (day startOfWeek + 6)) 23 59 59 999"

definition endOfDay :: "Date \<Rightarrow> Date" where
  \<comment> \<open>\<^verbatim>\<open>.setHours(23, 59, 59, 999)\<close>\<close>
  "endOfDay d = setHours d 23 59 59 999"

definition daysBetween :: "Date \<Rightarrow> Date \<Rightarrow> int" where
  \<comment> \<open>\<^verbatim>\<open>Math.ceil((end.getTime() - start.getTime()) / (1000 * 60 * 60 * 24))\<close>\<close>
  "daysBetween startDate endDate =
     Math_ceil (real_of_int (getTime endDate - getTime startDate) / real_of_int msPerDay)"

definition js_rem :: "int \<Rightarrow> int \<Rightarrow> int" where
  \<comment> \<open>the \<^verbatim>\<open>%\<close> of the language: the remainder has the sign of the dividend\<close>
  "js_rem a b = sgn a * (\<bar>a\<bar> mod \<bar>b\<bar>)"

definition getWeeklyAnalytics :: "parser \<Rightarrow> AnalyticsEngine \<Rightarrow> Date \<Rightarrow> TimeBasedAnalytics" where
  "getWeeklyAnalytics P e now =
     (let startOfWeek = weekStart now;
          endOfWeek = weekEnd startOfWeek
      in windowAnalytics P e startOfWeek endOfWeek ''This Week'' 7)"

definition getMonthlyAnalytics :: "parser \<Rightarrow> AnalyticsEngine \<Rightarrow> Date \<Rightarrow> TimeBasedAnalytics" where
  "getMonthlyAnalytics P e now =
     (let startOfMonth = Date_ymd (year now) (month now) 1;
          endOfMonth = endOfDay (Date_ymd (year now) (month now + 1) 0);
          daysInMonth' = day endOfMonth
      in windowAnalytics P e startOfMonth endOfMonth ''This Month'' daysInMonth')"

definition getHalfYearlyAnalytics :: "parser \<Rightarrow> AnalyticsEngine \<Rightarrow> Date \<Rightarrow> TimeBasedAnalytics" where
  "getHalfYearlyAnalytics P e now =
     (let startOfHalfYear = Date_ymd (year now) (month now div 6 * 6) 1;
          endOfHalfYear = endOfDay (Date_ymd (year now) (month now div 6 * 6 + 6) 0);
          days = daysBetween startOfHalfYear endOfHalfYear
      in windowAnalytics P e startOfHalfYear endOfHalfYear ''This Half Year'' days)"

definition getAnnualAnalytics :: "parser \<Rightarrow> AnalyticsEngine \<Rightarrow> Date \<Rightarrow> TimeBasedAnalytics" where
  "getAnnualAnalytics P e now =
     (let startOfYear = Date_ymd (year now) 0 1;
          endOfYear = endOfDay (Date_ymd (year now) 11 31);
          isLeapYear = (js_rem (year now) 4 = 0);
          daysInYear = (if isLeapYear then 366 else 365)
      in windowAnalytics P e startOfYear endOfYear ''This Year'' daysInYear)"

definition calculateGrowth :: "real \<Rightarrow> real \<Rightarrow> real" where
  \<comment> \<open>the closure of this name, written out identically in each of the four comparisons\<close>
  "calculateGrowth current' previous' =
     (if previous' = 0 then (if 0 < current' then 100 else 0)
      else ((current' - previous') / previous') * 100)"

definition compare :: "TimeBasedAnalytics \<Rightarrow> TimeBasedAnalytics \<Rightarrow> MonthlyComparison" where
  \<comment> \<open>the object every comparison returns\<close>
  "compare cur prev =
     \<lparr>current = cur, previous = prev,
      growth = \<lparr>income_g = calculateGrowth (totalIncome cur) (totalIncome prev),
                expenses_g = calculateGrowth (totalExpenses cur) (totalExpenses prev),
                savings_g = calculateGrowth (netAmount cur) (netAmount prev)\<rparr>\<rparr>"

definition getMonthlyComparison :: "parser \<Rightarrow> AnalyticsEngine \<Rightarrow> Date \<Rightarrow> MonthlyComparison" where
  "getMonthlyComparison P e now =
     (let startOfCurrentMonth = Date_ymd (year now) (month now) 1;
          endOfCurrentMonth = endOfDay (Date_ymd (year now) (month now + 1) 0);
          startOfPreviousMonth = Date_ymd (year now) (month now - 1) 1;
          endOfPreviousMonth = endOfDay (Date_ymd (year now) (month now) 0);
          cur = windowAnalytics P e startOfCurrentMonth endOfCurrentMonth
                  ''Current Month'' (day endOfCurrentMonth);
          prev = windowAnalytics P e startOfPreviousMonth endOfPreviousMonth
                  ''Previous Month'' (day endOfPreviousMonth)
      in compare cur prev)"

definition getWeeklyComparison :: "parser \<Rightarrow> AnalyticsEngine \<Rightarrow> Date \<Rightarrow> MonthlyComparison" where
  "getWeeklyComparison P e now =
     (let startOfCurrentWeek = weekStart now;
          endOfCurrentWeek = weekEnd startOfCurrentWeek;
          startOfPreviousWeek = setDate startOfCurrentWeek (day startOfCurrentWeek - 7);
          endOfPreviousWeek = weekEnd startOfPreviousWeek;
          cur = windowAnalytics P e startOfCurrentWeek endOfCurrentWeek ''Current Week'' 7;
          prev = windowAnalytics P e startOfPreviousWeek endOfPreviousWeek ''Previous Week'' 7
      in compare cur prev)"

definition getHalfYearlyComparison :: "parser \<Rightarrow> AnalyticsEngine \<Rightarrow> Date \<Rightarrow> MonthlyComparison" where
  "getHalfYearlyComparison P e now =
     (let currentHalfStart = month now div 6 * 6;
          startOfCurrentHalf = Date_ymd (year now) currentHalfStart 1;
          endOfCurrentHalf = endOfDay (Date_ymd (year now) (currentHalfStart + 6) 0);
          prevHalfStart = currentHalfStart - 6;
          prevYear = (if prevHalfStart < 0 then year now - 1 else year now);
          prevMonth' = (if prevHalfStart < 0 then prevHalfStart + 12 else prevHalfStart);
          startOfPreviousHalf = Date_ymd prevYear prevMonth' 1;
          endOfPreviousHalf = endOfDay (Date_ymd prevYear (prevMonth' + 6) 0);
          currentDays = daysBetween startOfCurrentHalf endOfCurrentHalf;
          previousDays = daysBetween startOfPreviousHalf endOfPreviousHalf;
          cur = windowAnalytics P e startOfCurrentHalf endOfCurrentHalf
                  ''Current Half Year'' currentDays;
          prev = windowAnalytics P e startOfPreviousHalf endOfPreviousHalf
                  ''Previous Half Year'' previousDays
      in compare cur prev)"

definition getYearlyComparison :: "parser \<Rightarrow> AnalyticsEngine \<Rightarrow> Date \<Rightarrow> MonthlyComparison" where
  "getYearlyComparison P e now =
     (let startOfCurrentYear = Date_ymd (year now) 0 1;
          endOfCurrentYear = endOfDay (Date_ymd (year now) 11 31);
          startOfPreviousYear = Date_ymd (year now - 1) 0 1;
          endOfPreviousYear = endOfDay (Date_ymd (year now - 1) 11 31);
          currentIsLeapYear = (js_rem (year now) 4 = 0);
          previousIsLeapYear = (js_rem (year now - 1) 4 = 0);
          currentDays = (if currentIsLeapYear then 366 else 365);
          previousDays = (if previousIsLeapYear then 366 else 365);
          cur = windowAnalytics P e startOfCurrentYear endOfCurrentYear ''Current Year'' currentDays;
          prev = windowAnalytics P e startOfPreviousYear endOfPreviousYear ''Previous Year'' previousDays
      in compare cur prev)"

subsection \<open>Spending trends\<close>

record TrendPoint =
  month_t :: string
  income_t :: real
  expenses_t :: real
  savings_t :: real

definition shortMonths :: "string list" where
  "shortMonths = [''Jan'', ''Feb'', ''Mar'', ''Apr'', ''May'', ''Jun'',
                  ''Jul'', ''Aug'', ''Sep'', ''Oct'', ''Nov'', ''Dec'']"

definition digit :: "int \<Rightarrow> char" where
  "digit n = ''0123456789'' ! nat (n mod 10)"

definition monthLabel :: "Date \<Rightarrow> string" where
  \<comment> \<open>\<^verbatim>\<open>toLocaleDateString('en-US', { month: 'short', year: '2-digit' })\<close>, as in "Mar 24"\<close>
  "monthLabel d =
     shortMonths ! nat (month d mod 12) @ '' '' @ [digit (year d div 10), digit (year d)]"

definition trendPoint :: "parser \<Rightarrow> AnalyticsEngine \<Rightarrow> Date \<Rightarrow> int \<Rightarrow> TrendPoint" where
  \<comment> \<open>the body of the loop, for the month \<open>i\<close> months back\<close>
  "trendPoint P e now i =
     (let monthDate = Date_ymd (year now) (month now - i) 1;
          startOfMonth = Date_ymd (year monthDate) (month monthDate) 1;
          endOfMonth = endOfDay (Date_ymd (year monthDate) (month monthDate + 1) 0);
          monthTransactions = getTransactionsInPeriod P e startOfMonth endOfMonth;
          income' = sumAbs (filter (\<lambda>t. type_t t = income) monthTransactions);
          expenses = sumAbs (filter (\<lambda>t. type_t t = expense) monthTransactions)
      in \<lparr>month_t = monthLabel monthDate, income_t = income', expenses_t = expenses,
          savings_t = income' - expenses\<rparr>)"

function trendsLoop ::
  "parser \<Rightarrow> AnalyticsEngine \<Rightarrow> Date \<Rightarrow> int \<Rightarrow> TrendPoint list \<Rightarrow> TrendPoint list" where
  \<comment> \<open>\<^verbatim>\<open>for (let i = ...; i >= 0; i--) trends.push(...)\<close>\<close>
  "trendsLoop P e now i trends =
     (if 0 \<le> i then trendsLoop P e now (i - 1) (trends @ [trendPoint P e now i]) else trends)"
  by pat_completeness auto
termination
  by (relation "measure (\<lambda>(P, e, now, i, trends). nat (i + 1))") auto

declare trendsLoop.simps [simp del]

definition getSpendingTrends :: "parser \<Rightarrow> AnalyticsEngine \<Rightarrow> Date \<Rightarrow> TrendPoint list" where
  "getSpendingTrends P e now = trendsLoop P e now 5 []"

subsection \<open>Category comparison\<close>

record CategoryChange =
  category_c :: string
  currentMonth :: real
  previousMonth :: real
  change :: real

definition Set_from :: "'a list \<Rightarrow> 'a list" where
  \<comment> \<open>\<^verbatim>\<open>Array.from(new Set(xs))\<close>: the distinct elements, in the order of first occurrence\<close>
  "Set_from xs = foldl (\<lambda>s x. if x \<in> set s then s else s @ [x]) [] xs"

definition byCurrentMonthDesc :: "CategoryChange \<Rightarrow> CategoryChange \<Rightarrow> bool" where
  "byCurrentMonthDesc a b = (0 < currentMonth b - currentMonth a)"

definition categoryChange :: "real \<Rightarrow> real \<Rightarrow> real" where
  \<comment> \<open>the expression bound to \<^verbatim>\<open>change\<close>\<close>
  "categoryChange currentAmount previousAmount =
     (if 0 < previousAmount then ((currentAmount - previousAmount) / previousAmount) * 100
      else if 0 < currentAmount then 100 else 0)"

definition getCategoryComparison :: "parser \<Rightarrow> AnalyticsEngine \<Rightarrow> Date \<Rightarrow> CategoryChange list" where
  "getCategoryComparison P e now =
     (let startOfCurrentMonth = Date_ymd (year now) (month now) 1;
          endOfCurrentMonth = endOfDay (Date_ymd (year now) (month now + 1) 0);
          startOfPreviousMonth = Date_ymd (year now) (month now - 1) 1;
          endOfPreviousMonth = endOfDay (Date_ymd (year now) (month now) 0);
          currentTransactions =
            filter (\<lambda>t. type_t t = expense)
              (getTransactionsInPeriod P e startOfCurrentMonth endOfCurrentMonth);
          previousTransactions =
            filter (\<lambda>t. type_t t = expense)
              (getTransactionsInPeriod P e startOfPreviousMonth endOfPreviousMonth);
          allCategories = Set_from (map category currentTransactions @ map category previousTransactions)
      in sort_js byCurrentMonthDesc
           (map (\<lambda>cat.
                  let currentAmount = sumAbs (filter (\<lambda>t. category t = cat) currentTransactions);
                      previousAmount = sumAbs (filter (\<lambda>t. category t = cat) previousTransactions)
                  in \<lparr>category_c = cat, currentMonth = currentAmount,
                      previousMonth = previousAmount,
                      change = categoryChange currentAmount previousAmount\<rparr>)
              allCategories))"

subsection \<open>Financial health score\<close>

datatype Impact = positive | negative | neutral

record Factor =
  name :: string
  score_f :: real
  impact :: Impact
  description_f :: string

record HealthScore =
  score :: int
  factors :: "Factor list"

fun decimal :: "nat \<Rightarrow> string" where
  "decimal n = (if n < 10 then [digit (int n)] else decimal (n div 10) @ [digit (int n)])"

declare decimal.simps [simp del]

definition toFixed1 :: "real \<Rightarrow> string" where
  \<comment> \<open>\<^verbatim>\<open>x.toFixed(1)\<close>, for the magnitudes below \<open>10\<^sup>2\<^sup>1\<close> that print in decimal notation\<close>
  "toFixed1 x =
     (let n = nat \<lfloor>\<bar>x\<bar> * 10 + 1 / 2\<rfloor> in
      (if x < 0 then ''-'' else []) @ decimal (n div 10) @ ''.'' @ [digit (int n)])"

definition calculateVariation :: "real list \<Rightarrow> real" where
  "calculateVariation values =
     (if length values = 0 then 0
      else
        let mean = foldl (\<lambda>sum val. sum + val) 0 values / real (length values);
            variance = foldl (\<lambda>sum val. sum + (val - mean) ^ 2) 0 values / real (length values);
            standardDeviation = sqrt variance
        in if 0 < mean then (standardDeviation / mean) * 100 else 0)"

fun calculateCategoryBalance :: "CategorySummary list \<Rightarrow> real" where
  "calculateCategoryBalance [] = 100"
| "calculateCategoryBalance (c # cs) =
     (let maxPercentage = Math_max (percentage c) (map percentage cs) in
      if 50 < maxPercentage then 30
      else if 40 < maxPercentage then 50
      else if 30 < maxPercentage then 70
      else 90)"

definition impactOf :: "real \<Rightarrow> real \<Rightarrow> real \<Rightarrow> Impact" where
  \<comment> \<open>\<^verbatim>\<open>s >= hi ? 'positive' : s >= lo ? 'neutral' : 'negative'\<close>\<close>
  "impactOf s hi lo = (if hi \<le> s then positive else if lo \<le> s then neutral else negative)"

definition getFinancialHealthScore :: "parser \<Rightarrow> AnalyticsEngine \<Rightarrow> Date \<Rightarrow> HealthScore" where
  "getFinancialHealthScore P e now =
     (let monthlyAnalytics = getMonthlyAnalytics P e now;
          savingsScore = min (savingsRate monthlyAnalytics * 2) 100;
          f1 = \<lparr>name = ''Savings Rate'', score_f = savingsScore,
                impact = impactOf savingsScore 60 30,
                description_f = ''You're saving '' @ toFixed1 (savingsRate monthlyAnalytics)
                  @ ''% of your income''\<rparr>;
          totalScore1 = 0 + savingsScore * (3 / 10);
          trends = getSpendingTrends P e now;
          expenseVariation = calculateVariation (map expenses_t trends);
          consistencyScore = max 0 (100 - expenseVariation);
          f2 = \<lparr>name = ''Spending Consistency'', score_f = consistencyScore,
                impact = impactOf consistencyScore 70 40,
                description_f = ''Your spending pattern is ''
                  @ (if 70 \<le> consistencyScore then ''consistent'' else ''variable'')\<rparr>;
          totalScore2 = totalScore1 + consistencyScore * (25 / 100);
          comparison = getMonthlyComparison P e now;
          incomeGrowth = income_g (growth comparison);
          incomeGrowthScore = min (max (50 + incomeGrowth) 0) 100;
          f3 = \<lparr>name = ''Income Growth'', score_f = incomeGrowthScore,
                impact = (if 5 < incomeGrowth then positive
                          else if incomeGrowth < - 5 then negative else neutral),
                description_f = ''Income ''
                  @ (if 0 \<le> incomeGrowth then ''increased'' else ''decreased'')
                  @ '' by '' @ toFixed1 \<bar>incomeGrowth\<bar> @ ''%''\<rparr>;
          totalScore3 = totalScore2 + incomeGrowthScore * (2 / 10);
          categoryBalance = calculateCategoryBalance (topCategories monthlyAnalytics);
          f4 = \<lparr>name = ''Expense Balance'', score_f = categoryBalance,
                impact = impactOf categoryBalance 70 40,
                description_f = ''Your expenses are ''
                  @ (if 70 \<le> categoryBalance then ''well distributed'' else ''concentrated'')
                  @ '' across categories''\<rparr>;
          totalScore4 = totalScore3 + categoryBalance * (25 / 100)
      in \<lparr>score = Math_round totalScore4, factors = [f1, f2, f3, f4]\<rparr>)"

subsection \<open>The constructor on arrays held by reference\<close>

text \<open>
  The caller passes its array by reference, and \<^verbatim>\<open>Array.prototype.sort\<close> sorts the array it
  is called on and returns that same array. A heap maps references to array contents;
  the transaction records are never written and stay values.
\<close>

type_synonym ref = nat

type_synonym heap = "ref \<Rightarrow> Transaction list"

definition Array_sort ::
  "heap \<Rightarrow> ref \<Rightarrow> (Transaction \<Rightarrow> Transaction \<Rightarrow> bool) \<Rightarrow> heap \<times> ref" where
  "Array_sort h a gt = (h(a := sort_js gt (h a)), a)"

record AnalyticsEngine_obj =
  transactions_r :: ref

definition constructor :: "parser \<Rightarrow> heap \<Rightarrow> ref \<Rightarrow> heap \<times> AnalyticsEngine_obj" where
  \<comment> \<open>\<^verbatim>\<open>this.transactions = transactions.sort((a, b) => ...)\<close>\<close>
  "constructor P h transactions' =
     (case Array_sort h transactions' (byDateDesc P) of
        (h', sorted') \<Rightarrow> (h', \<lparr>transactions_r = sorted'\<rparr>))"

definition this_engine :: "heap \<Rightarrow> AnalyticsEngine_obj \<Rightarrow> AnalyticsEngine" where
  \<comment> \<open>what the queries read through \<^verbatim>\<open>this.transactions\<close>\<close>
  "this_engine h obj = \<lparr>transactions = h (transactions_r obj)\<rparr>"

section \<open>Specification vocabulary\<close>

text \<open>
  What the specification says of a period is stated over the list the caller supplies:
  the transactions of a window are those whose parsed date lies between its two ends.
\<close>

definition inWindow :: "parser \<Rightarrow> Date \<Rightarrow> Date \<Rightarrow> Transaction \<Rightarrow> bool" where
  "inWindow P startDate endDate t =
     (case P (date t) of None \<Rightarrow> False
      | Some td \<Rightarrow> getTime startDate \<le> td \<and> td \<le> getTime endDate)"

definition absTotal :: "TransactionType \<Rightarrow> Transaction list \<Rightarrow> real" where
  "absTotal ty ts = (\<Sum>t\<leftarrow>filter (\<lambda>t. type_t t = ty) ts. \<bar>amount t\<bar>)"

text \<open>The totals of a summary \<open>s\<close> are those of the transactions \<open>W\<close> of its window.\<close>

definition totalsOf :: "TimeBasedAnalytics \<Rightarrow> Transaction list \<Rightarrow> bool" where
  "totalsOf s W =
     (totalIncome s = absTotal income W \<and> totalExpenses s = absTotal expense W
      \<and> 0 \<le> totalIncome s \<and> 0 \<le> totalExpenses s
      \<and> netAmount s = totalIncome s - totalExpenses s)"

text \<open>
  The four period kinds, the query and the comparison of each kind, and the day count the
  specification gives for each: 7 for a week, the days of the calendar month, the days of
  the calendar half, and 365 or 366 by the rule "year divisible by 4".
\<close>

datatype PeriodKind = Weekly | Monthly | HalfYearly | Yearly

fun periodQuery :: "PeriodKind \<Rightarrow> parser \<Rightarrow> AnalyticsEngine \<Rightarrow> Date \<Rightarrow> TimeBasedAnalytics" where
  "periodQuery Weekly = getWeeklyAnalytics"
| "periodQuery Monthly = getMonthlyAnalytics"
| "periodQuery HalfYearly = getHalfYearlyAnalytics"
| "periodQuery Yearly = getAnnualAnalytics"

fun comparisonQuery :: "PeriodKind \<Rightarrow> parser \<Rightarrow> AnalyticsEngine \<Rightarrow> Date \<Rightarrow> MonthlyComparison" where
  "comparisonQuery Weekly = getWeeklyComparison"
| "comparisonQuery Monthly = getMonthlyComparison"
| "comparisonQuery HalfYearly = getHalfYearlyComparison"
| "comparisonQuery Yearly = getYearlyComparison"

fun periodWindow :: "PeriodKind \<Rightarrow> Date \<Rightarrow> Date \<times> Date" where
  \<comment> \<open>the two ends each query computes\<close>
  "periodWindow Weekly now = (weekStart now, weekEnd (weekStart now))"
| "periodWindow Monthly now =
     (Date_ymd (year now) (month now) 1, endOfDay (Date_ymd (year now) (month now + 1) 0))"
| "periodWindow HalfYearly now =
     (Date_ymd (year now) (month now div 6 * 6) 1,
      endOfDay (Date_ymd (year now) (month now div 6 * 6 + 6) 0))"
| "periodWindow Yearly now = (Date_ymd (year now) 0 1, endOfDay (Date_ymd (year now) 11 31))"

definition windowOf :: "PeriodKind \<Rightarrow> parser \<Rightarrow> Date \<Rightarrow> Transaction list \<Rightarrow> Transaction list" where
  "windowOf k P now txs =
     filter (inWindow P (fst (periodWindow k now)) (snd (periodWindow k now))) txs"

fun daysInPeriod :: "PeriodKind \<Rightarrow> Date \<Rightarrow> int" where
  "daysInPeriod Weekly now = 7"
| "daysInPeriod Monthly now = daysInMonth (year now) (month now)"
| "daysInPeriod HalfYearly now =
     (if month now < 6 then (\<Sum>m\<leftarrow>[0, 1, 2, 3, 4, 5]. daysInMonth (year now) m)
      else (\<Sum>m\<leftarrow>[6, 7, 8, 9, 10, 11]. daysInMonth (year now) m))"
| "daysInPeriod Yearly now = (if year now mod 4 = 0 then 366 else 365)"

definition validNow :: "Date \<Rightarrow> bool" where
  \<comment> \<open>a reading of the clock: a calendar date, not before 1970\<close>
  "validNow now = (validDate now \<and> 1970 \<le> year now)"

text \<open>
  What holds of the category list of a summary \<open>s\<close> over a window \<open>W\<close>: at most five
  entries, each for a category of an expense of the window, in descending order of
  amount, each percentage between 0 and 100.
\<close>

definition topCategoriesOf :: "TimeBasedAnalytics \<Rightarrow> Transaction list \<Rightarrow> bool" where
  "topCategoriesOf s W =
     (length (topCategories s) \<le> 5
      \<and> (\<forall>c \<in> set (topCategories s). \<exists>t \<in> set W. type_t t = expense \<and> category t = category_s c)
      \<and> sorted_wrt (\<lambda>a b. amount_s b \<le> amount_s a) (topCategories s)
      \<and> (\<forall>c \<in> set (topCategories s). 0 \<le> percentage c \<and> percentage c \<le> 100))"

text \<open>
  What the specification says of the sum of the percentages of a summary \<open>s\<close> over a
  window \<open>W\<close>: at most 100, and 100 when the expenses are positive and the window has at
  most five expense categories, so that none is cut.
\<close>

definition percentagesAddUp :: "TimeBasedAnalytics \<Rightarrow> Transaction list \<Rightarrow> bool" where
  "percentagesAddUp s W =
     (sum_list (map percentage (topCategories s)) \<le> 100
      \<and> (0 < totalExpenses s
             \<and> length (remdups (map category (filter (\<lambda>t. type_t t = expense) W))) \<le> 5
           \<longrightarrow> sum_list (map percentage (topCategories s)) = 100))"

text \<open>
  The trend point of a calendar month, as the specification describes it: the totals of
  the transactions dated from the first instant of the month up to, and not including,
  the first instant of the next.
\<close>

definition monthStart :: "int \<Rightarrow> int \<Rightarrow> time" where
  "monthStart y m = (dayFromYear y + daysBeforeMonth y m) * msPerDay"

definition inMonth :: "parser \<Rightarrow> int \<Rightarrow> int \<Rightarrow> Transaction \<Rightarrow> bool" where
  "inMonth P y m t =
     (case P (date t) of None \<Rightarrow> False
      | Some td \<Rightarrow> monthStart y m \<le> td \<and> td < monthStart y m + daysInMonth y m * msPerDay)"

definition monthsBack :: "Date \<Rightarrow> int \<Rightarrow> int \<times> int" where
  \<comment> \<open>the calendar month (year, month) that lies \<open>i\<close> months before the month of \<open>now\<close>\<close>
  "monthsBack now i = (year now + (month now - i) div 12, (month now - i) mod 12)"

definition monthPoint :: "parser \<Rightarrow> Transaction list \<Rightarrow> int \<times> int \<Rightarrow> TrendPoint" where
  "monthPoint P txs ym =
     (case ym of (y, m) \<Rightarrow>
        \<lparr>month_t = monthLabel \<lparr>year = y, month = m, day = 1, msec = 0\<rparr>,
         income_t = absTotal income (filter (inMonth P y m) txs),
         expenses_t = absTotal expense (filter (inMonth P y m) txs),
         savings_t = absTotal income (filter (inMonth P y m) txs)
                     - absTotal expense (filter (inMonth P y m) txs)\<rparr>)"

section \<open>The queries on a host\<close>

text \<open>
  The definitions above compute with exact reals, and \<open>getTime\<close> counts on the local time
  line. A host differs in two ways that a period summary can show. It rounds the result of
  every arithmetic operation to a double. And its time values are UTC, so that the span
  between two local dates grows or shrinks by the change of \<^verbatim>\<open>getTimezoneOffset()\<close> between
  them (daylight saving), which the day count of the half-year, computed from such a span,
  picks up. Both are parameters of the period queries below; with no rounding and no shift
  they are the queries above.
\<close>

definition pow2 :: "int \<Rightarrow> real" where
  "pow2 e = power_int 2 e"

definition roundEven :: "real \<Rightarrow> int" where
  \<comment> \<open>the nearest integer, a tie going to the even one\<close>
  "roundEven x =
     (let f = \<lfloor>x\<rfloor>; d = x - real_of_int f in
      if d < 1 / 2 then f else if 1 / 2 < d then f + 1 else if even f then f else f + 1)"

fun expoDown :: "nat \<Rightarrow> real \<Rightarrow> int \<Rightarrow> int" where
  "expoDown 0 x e = e"
| "expoDown (Suc n) x e = (if pow2 e \<le> x then e else expoDown n x (e - 1))"

definition exponent :: "real \<Rightarrow> int" where
  \<comment> \<open>the binary exponent of a double: the largest \<open>e\<close> from 1023 down with \<open>2\<^sup>e \<le> |x|\<close>,
      and -1022 for the subnormal numbers and 0\<close>
  "exponent x = expoDown 2045 \<bar>x\<bar> 1023"

definition fl :: "real \<Rightarrow> real" where
  \<comment> \<open>rounding to the nearest double (53 significant bits, ties to even); the overflow of
      magnitudes from \<open>2\<^sup>1\<^sup>0\<^sup>2\<^sup>4\<close> on to Infinity is not modelled\<close>
  "fl x = real_of_int (roundEven (x / pow2 (exponent x - 52))) * pow2 (exponent x - 52)"

record Host =
  rounding :: "real \<Rightarrow> real"
    \<comment> \<open>the value the host keeps of the exact result of an arithmetic operation\<close>
  dstShift :: int
    \<comment> \<open>the zone offset at the end of the half-year that a query looks at less the one at
        its start, in milliseconds: 3600000 where the clocks go back an hour in between\<close>

definition exact :: Host where
  \<comment> \<open>exact arithmetic, no change of the zone offset\<close>
  "exact = \<lparr>rounding = (\<lambda>x. x), dstShift = 0\<rparr>"

definition doubles :: "int \<Rightarrow> Host" where
  \<comment> \<open>double arithmetic, on a host whose \<^verbatim>\<open>getTimezoneOffset()\<close> at the end of the half-year
      exceeds the one at its start by \<open>shift\<close> milliseconds\<close>
  "doubles shift = \<lparr>rounding = fl, dstShift = shift\<rparr>"

definition monotoneRounding :: "(real \<Rightarrow> real) \<Rightarrow> bool" where
  \<comment> \<open>what the proofs use of a rounding, on the non-negative numbers the engine adds up\<close>
  "monotoneRounding rnd =
     ((\<forall>x y. 0 \<le> x \<and> x \<le> y \<longrightarrow> rnd x \<le> rnd y)
      \<and> (\<forall>x. 0 \<le> x \<longrightarrow> rnd (rnd x) = rnd x)
      \<and> rnd 0 = 0 \<and> rnd 1 = 1 \<and> rnd 100 = 100)"

definition validHost :: "Host \<Rightarrow> bool" where
  "validHost H = (monotoneRounding (rounding H) \<and> \<bar>dstShift H\<bar> < msPerDay)"

definition sumAbs_r :: "(real \<Rightarrow> real) \<Rightarrow> Transaction list \<Rightarrow> real" where
  "sumAbs_r rnd ts = foldl (\<lambda>sum t. rnd (sum + \<bar>amount t\<bar>)) 0 ts"

definition addCategory_r ::
  "(real \<Rightarrow> real) \<Rightarrow> (string \<times> real \<times> nat) list \<Rightarrow> Transaction \<Rightarrow> (string \<times> real \<times> nat) list" where
  "addCategory_r rnd categoryMap t =
     (case (case map_get categoryMap (category t) of None \<Rightarrow> (0, 0) | Some ex \<Rightarrow> ex) of
        (a, c) \<Rightarrow> map_set (category t) (rnd (a + \<bar>amount t\<bar>), c + 1) categoryMap)"

definition calculatePeriodAnalytics_r ::
  "(real \<Rightarrow> real) \<Rightarrow> Transaction list \<Rightarrow> string \<Rightarrow> int \<Rightarrow> TimeBasedAnalytics" where
  \<comment> \<open>\<open>calculatePeriodAnalytics\<close> with every sum, difference, quotient and product rounded\<close>
  "calculatePeriodAnalytics_r rnd ts periodName days =
     (let income' = sumAbs_r rnd (filter (\<lambda>t. type_t t = income) ts);
          expenses = sumAbs_r rnd (filter (\<lambda>t. type_t t = expense) ts);
          netAmount' = rnd (income' - expenses);
          savingsRate' = (if 0 < income' then rnd (rnd (netAmount' / income') * 100) else 0);
          averageDaily' = (if days = 0 then None else Some (rnd (expenses / real_of_int days)));
          categoryMap = foldl (addCategory_r rnd) [] (filter (\<lambda>t. type_t t = expense) ts);
          topCategories' =
            take 5 (sort_js byAmountDesc
              (map (\<lambda>(cat, a, c).
                     \<lparr>category_s = cat, amount_s = a, count_s = c,
                      percentage = (if 0 < expenses then rnd (rnd (a / expenses) * 100) else 0)\<rparr>)
                 categoryMap))
      in \<lparr>period = periodName, totalIncome = income', totalExpenses = expenses,
          netAmount = netAmount', transactionCount = length ts,
          topCategories = topCategories', averageDaily = averageDaily',
          savingsRate = savingsRate'\<rparr>)"

definition daysBetweenOn :: "Host \<Rightarrow> Date \<Rightarrow> Date \<Rightarrow> int" where
  \<comment> \<open>\<^verbatim>\<open>Math.ceil((end.getTime() - start.getTime()) / (1000 * 60 * 60 * 24))\<close> on the time
      values of the host; the difference of two time values is a whole number of
      milliseconds, which a double holds exactly\<close>
  "daysBetweenOn H startDate endDate =
     Math_ceil (rounding H
       (real_of_int (getTime endDate - getTime startDate + dstShift H) / real_of_int msPerDay))"

fun periodName :: "PeriodKind \<Rightarrow> string" where
  "periodName Weekly = ''This Week''"
| "periodName Monthly = ''This Month''"
| "periodName HalfYearly = ''This Half Year''"
| "periodName Yearly = ''This Year''"

fun periodDaysOn :: "Host \<Rightarrow> PeriodKind \<Rightarrow> Date \<Rightarrow> int" where
  \<comment> \<open>the day count each query passes on\<close>
  "periodDaysOn H Weekly now = 7"
| "periodDaysOn H Monthly now = day (endOfDay (Date_ymd (year now) (month now + 1) 0))"
| "periodDaysOn H HalfYearly now =
     daysBetweenOn H (Date_ymd (year now) (month now div 6 * 6) 1)
       (endOfDay (Date_ymd (year now) (month now div 6 * 6 + 6) 0))"
| "periodDaysOn H Yearly now = (if js_rem (year now) 4 = 0 then 366 else 365)"

definition periodQueryOn ::
  "Host \<Rightarrow> PeriodKind \<Rightarrow> parser \<Rightarrow> AnalyticsEngine \<Rightarrow> Date \<Rightarrow> TimeBasedAnalytics" where
  "periodQueryOn H k P e now =
     calculatePeriodAnalytics_r (rounding H)
       (getTransactionsInPeriod P e (fst (periodWindow k now)) (snd (periodWindow k now)))
       (periodName k) (periodDaysOn H k now)"

section \<open>Sample data\<close>

definition isoDates :: parser where
  \<comment> \<open>the parser on the dates of the samples, for a host whose local time is UTC\<close>
  "isoDates s =
     (if s = ''2023-12-20'' then Some 1703030400000
      else if s = ''2024-02-10'' then Some 1707523200000
      else if s = ''2024-03-01'' then Some 1709251200000
      else if s = ''2024-03-05'' then Some 1709596800000
      else if s = ''2024-03-10'' then Some 1710028800000
      else None)"

definition mid_march :: Date where
  \<comment> \<open>Friday 15 March 2024, at noon\<close>
  "mid_march = \<lparr>year = 2024, month = 2, day = 15, msec = 43200000\<rparr>"

definition salary :: Transaction where
  "salary = \<lparr>id_t = ''1'', amount = 100, category = ''Salary'', description = ''pay'',
     date = ''2024-03-01'', type_t = income, source = None\<rparr>"

definition rent :: Transaction where
  "rent = \<lparr>id_t = ''2'', amount = - 300, category = ''Rent'', description = ''flat'',
     date = ''2024-03-05'', type_t = expense, source = None\<rparr>"

definition food :: Transaction where
  "food = \<lparr>id_t = ''3'', amount = 100, category = ''Food'', description = ''market'',
     date = ''2024-03-10'', type_t = expense, source = None\<rparr>"

definition february_bill :: Transaction where
  "february_bill = \<lparr>id_t = ''4'', amount = 500, category = ''Rent'', description = ''flat'',
     date = ''2024-02-10'', type_t = expense, source = None\<rparr>"

definition december_bill :: Transaction where
  "december_bill = \<lparr>id_t = ''5'', amount = 1000, category = ''Travel'', description = ''trip'',
     date = ''2023-12-20'', type_t = expense, source = None\<rparr>"

definition sample :: "Transaction list" where
  "sample = [salary, rent, food, february_bill, december_bill]"

definition callers_heap :: heap where
  \<comment> \<open>the caller's array, oldest transaction first, at reference 0\<close>
  "callers_heap = (\<lambda>r. [])(0 := [rent, food])"

definition overspent :: "Transaction list" where
  \<comment> \<open>a month in which the expenses exceed the income\<close>
  "overspent = [salary, rent]"


definition third :: "string \<Rightarrow> Transaction" where
  \<comment> \<open>an expense of 10 on 5 March 2024 in the given category\<close>
  "third cat = \<lparr>id_t = cat, amount = 10, category = cat, description = ''share'',
     date = ''2024-03-05'', type_t = expense, source = None\<rparr>"

definition thirds :: "Transaction list" where
  "thirds = [third ''A'', third ''B'', third ''C'']"

definition priced :: "string \<Rightarrow> real \<Rightarrow> Transaction" where
  \<comment> \<open>an expense of the given amount on 5 March 2024 in the given category\<close>
  "priced cat a = \<lparr>id_t = cat, amount = a, category = cat, description = ''item'',
     date = ''2024-03-05'', type_t = expense, source = None\<rparr>"

definition uneven :: "Transaction list" where
  "uneven = [priced ''A'' 9, priced ''B'' 2]"

section \<open>Verified properties\<close>

subsection \<open>Sorting\<close>

lemma set_insert_js: "set (insert_js gt x xs) = insert x (set xs)"
  by (induction xs) auto

lemma set_sort_js: "set (sort_js gt xs) = set xs"
  by (induction xs) (auto simp: sort_js_def set_insert_js)

lemma mset_insert_js: "mset (insert_js gt x xs) = add_mset x (mset xs)"
  by (induction xs) auto

lemma mset_sort_js: "mset (sort_js gt xs) = mset xs"
  by (induction xs) (auto simp: sort_js_def mset_insert_js)

lemma length_sort_js: "length (sort_js gt xs) = length xs"
  using mset_sort_js [of gt xs] by (metis size_mset)

subsection \<open>Growth percentages\<close>

text \<open>
  Claim C5. For non-negative current and previous values, the growth helper of the four
  comparisons (and the expression of the same shape in the category comparison) gives
  exactly 100 when previous is 0 and current is positive, exactly 0 when both are 0, and
  (current - previous) / previous * 100 when previous is not 0.
\<close>

theorem calculateGrowth_cases:
  "0 \<le> c \<Longrightarrow> 0 \<le> p \<Longrightarrow>
     (p = 0 \<and> 0 < c \<longrightarrow> calculateGrowth c p = 100 \<and> categoryChange c p = 100)
   \<and> (p = 0 \<and> c = 0 \<longrightarrow> calculateGrowth c p = 0 \<and> categoryChange c p = 0)
   \<and> (p \<noteq> 0 \<longrightarrow> calculateGrowth c p = ((c - p) / p) * 100
                  \<and> categoryChange c p = ((c - p) / p) * 100)"
  by (auto simp: calculateGrowth_def categoryChange_def)

theorem calculateGrowth_cases_witness:
  "calculateGrowth 5 0 = 100 \<and> categoryChange 5 0 = 100
   \<and> calculateGrowth 0 0 = 0 \<and> categoryChange 0 0 = 0
   \<and> calculateGrowth 150 100 = 50 \<and> categoryChange 150 100 = 50"
  using calculateGrowth_cases [of 5 0] calculateGrowth_cases [of 0 0]
    calculateGrowth_cases [of 150 100]
  by simp

text \<open>The four comparisons and the category comparison report what these helpers return.\<close>

lemma comparisons_use_calculateGrowth:
  "q \<in> {getWeeklyComparison, getMonthlyComparison, getHalfYearlyComparison, getYearlyComparison}
   \<Longrightarrow> growth (q P e now) =
     \<lparr>income_g = calculateGrowth (totalIncome (current (q P e now))) (totalIncome (previous (q P e now))),
      expenses_g = calculateGrowth (totalExpenses (current (q P e now))) (totalExpenses (previous (q P e now))),
      savings_g = calculateGrowth (netAmount (current (q P e now))) (netAmount (previous (q P e now)))\<rparr>"
  by (auto simp: getWeeklyComparison_def getMonthlyComparison_def getHalfYearlyComparison_def
      getYearlyComparison_def compare_def Let_def)

lemma categoryComparison_uses_categoryChange:
  "c \<in> set (getCategoryComparison P e now) \<Longrightarrow>
     change c = categoryChange (currentMonth c) (previousMonth c)"
  by (auto simp: getCategoryComparison_def Let_def set_sort_js)

subsection \<open>Expense balance\<close>

lemma Math_max_Max: "Math_max x xs = Max (set (x # xs))"
proof (induction xs arbitrary: x)
  case Nil
  show ?case by simp
next
  case (Cons y ys)
  have "Max (insert x (insert y (set ys))) = Max (insert (max x y) (set ys))"
    by (metis List.finite_set Max_insert Max_singleton finite.insertI insert_not_empty max.assoc set_empty)
  with Cons show ?case by simp
qed

text \<open>
  Claim C6. The Expense Balance sub-score is 100 for no categories and otherwise depends
  only on the largest percentage m among the current month's top categories, by strict
  bands: 30 above 50, 50 above 40, 70 above 30, else 90. So a largest percentage of
  exactly 50 scores 50, exactly 40 scores 70, exactly 30 scores 90, and 60 scores 30.
\<close>

theorem calculateCategoryBalance_bands:
  "calculateCategoryBalance cats =
     (if cats = [] then 100
      else let m = Max (percentage ` set cats) in
           if 50 < m then 30 else if 40 < m then 50 else if 30 < m then 70 else 90)
   \<and> calculateCategoryBalance [c\<lparr>percentage := 50\<rparr>] = 50
   \<and> calculateCategoryBalance [c\<lparr>percentage := 40\<rparr>] = 70
   \<and> calculateCategoryBalance [c\<lparr>percentage := 30\<rparr>] = 90
   \<and> calculateCategoryBalance [c\<lparr>percentage := 60\<rparr>] = 30
   \<and> score_f (factors (getFinancialHealthScore P e now) ! 3)
       = calculateCategoryBalance (topCategories (getMonthlyAnalytics P e now))"
proof -
  have "calculateCategoryBalance cats =
     (if cats = [] then 100
      else let m = Max (percentage ` set cats) in
           if 50 < m then 30 else if 40 < m then 50 else if 30 < m then 70 else 90)"
  proof (cases cats)
    case Nil
    then show ?thesis by simp
  next
    case (Cons c' cs)
    have "Math_max (percentage c') (map percentage cs) = Max (percentage ` set cats)"
      unfolding Math_max_Max Cons by simp
    then show ?thesis using Cons by (simp add: Let_def)
  qed
  moreover have "score_f (factors (getFinancialHealthScore P e now) ! 3)
       = calculateCategoryBalance (topCategories (getMonthlyAnalytics P e now))"
    by (simp add: getFinancialHealthScore_def Let_def)
  ultimately show ?thesis by simp
qed

subsection \<open>Construction\<close>

lemma constructor_engine:
  "constructor P h a = (h', obj) \<Longrightarrow> this_engine h' obj = new_AnalyticsEngine P (h a)"
  by (auto simp: constructor_def Array_sort_def this_engine_def new_AnalyticsEngine_def)

lemma constructor_frame:
  "constructor P h a = (h', obj) \<Longrightarrow>
     transactions_r obj = a \<and> mset (h' a) = mset (h a) \<and> (\<forall>r. r \<noteq> a \<longrightarrow> h' r = h r)"
  by (auto simp: constructor_def Array_sort_def mset_sort_js)

text \<open>
  Claim C7 says that construction stores a sorted copy and leaves the caller's array as
  it was. The constructor sorts the caller's array itself and keeps a reference to it:
  an array holding the older \<open>rent\<close> before the newer \<open>food\<close> is reordered.
\<close>

theorem constructor_reorders_callers_array:
  "callers_heap 0 = [rent, food]
   \<and> fst (constructor isoDates callers_heap 0) 0 = [food, rent]
   \<and> transactions_r (snd (constructor isoDates callers_heap 0)) = 0"
  by (simp add: constructor_def Array_sort_def callers_heap_def sort_js_def byDateDesc_def
      isoDates_def rent_def food_def)

subsection \<open>Period totals\<close>

lemma foldl_plus: "foldl (\<lambda>s t. s + f t) a ts = a + sum_list (map f ts)" for a :: real
  by (induction ts arbitrary: a) (auto simp: algebra_simps)

lemma sumAbs_sum_list: "sumAbs ts = (\<Sum>t\<leftarrow>ts. \<bar>amount t\<bar>)"
  by (simp add: sumAbs_def foldl_plus)

lemma sumAbs_nonneg: "0 \<le> sumAbs ts"
  by (auto simp: sumAbs_sum_list intro!: sum_list_nonneg)

lemma sumAbs_type: "sumAbs (filter (\<lambda>t. type_t t = ty) ts) = absTotal ty ts"
  by (simp add: sumAbs_sum_list absTotal_def)

lemma sum_list_map_mset:
  fixes f :: "'a \<Rightarrow> real"
  assumes "mset xs = mset ys"
  shows "sum_list (map f xs) = sum_list (map f ys)"
proof -
  have "sum_list (map f xs) = sum_mset (image_mset f (mset xs))"
    by (metis mset_map sum_mset_sum_list)
  also have "\<dots> = sum_mset (image_mset f (mset ys))" using assms by simp
  also have "\<dots> = sum_list (map f ys)"
    by (metis mset_map sum_mset_sum_list)
  finally show ?thesis .
qed

lemma absTotal_mset: "mset xs = mset ys \<Longrightarrow> absTotal ty xs = absTotal ty ys"
  unfolding absTotal_def by (rule sum_list_map_mset) simp

lemma engine_window:
  "getTransactionsInPeriod P (new_AnalyticsEngine P txs) s e
     = filter (inWindow P s e) (sort_js (byDateDesc P) txs)"
  by (simp add: getTransactionsInPeriod_def new_AnalyticsEngine_def inWindow_def [abs_def])

lemma engine_window_mset:
  "mset (getTransactionsInPeriod P (new_AnalyticsEngine P txs) s e)
     = mset (filter (inWindow P s e) txs)"
  by (simp add: engine_window mset_sort_js)

lemma analytics_fields:
  "totalIncome (calculatePeriodAnalytics ts nm d) = absTotal income ts"
  "totalExpenses (calculatePeriodAnalytics ts nm d) = absTotal expense ts"
  "netAmount (calculatePeriodAnalytics ts nm d) = absTotal income ts - absTotal expense ts"
  "savingsRate (calculatePeriodAnalytics ts nm d) =
     (if 0 < absTotal income ts
      then ((absTotal income ts - absTotal expense ts) / absTotal income ts) * 100 else 0)"
  "averageDaily (calculatePeriodAnalytics ts nm d) =
     (if d = 0 then None else Some (absTotal expense ts / real_of_int d))"
  "period (calculatePeriodAnalytics ts nm d) = nm"
  "transactionCount (calculatePeriodAnalytics ts nm d) = length ts"
  by (simp_all add: calculatePeriodAnalytics_def Let_def sumAbs_type)

lemma absTotal_nonneg: "0 \<le> absTotal ty ts"
  by (auto simp: absTotal_def intro!: sum_list_nonneg)

lemma window_totals:
  "totalsOf (windowAnalytics P (new_AnalyticsEngine P txs) s e nm d) (filter (inWindow P s e) txs)"
  unfolding totalsOf_def windowAnalytics_def analytics_fields
  using absTotal_mset [OF engine_window_mset] absTotal_nonneg by simp

text \<open>
  Claim C1. For every transaction list and each of the four period queries, totalIncome
  is the sum of the absolute amounts of the window's income transactions, totalExpenses
  that of its expense transactions, both are non-negative, and netAmount is exactly
  totalIncome - totalExpenses.
\<close>

theorem period_totals:
  "totalsOf (getWeeklyAnalytics P (new_AnalyticsEngine P txs) now)
     (filter (inWindow P (weekStart now) (weekEnd (weekStart now))) txs)
   \<and> totalsOf (getMonthlyAnalytics P (new_AnalyticsEngine P txs) now)
     (filter (inWindow P (Date_ymd (year now) (month now) 1)
                (endOfDay (Date_ymd (year now) (month now + 1) 0))) txs)
   \<and> totalsOf (getHalfYearlyAnalytics P (new_AnalyticsEngine P txs) now)
     (filter (inWindow P (Date_ymd (year now) (month now div 6 * 6) 1)
                (endOfDay (Date_ymd (year now) (month now div 6 * 6 + 6) 0))) txs)
   \<and> totalsOf (getAnnualAnalytics P (new_AnalyticsEngine P txs) now)
     (filter (inWindow P (Date_ymd (year now) 0 1) (endOfDay (Date_ymd (year now) 11 31))) txs)"
  by (simp add: getWeeklyAnalytics_def getMonthlyAnalytics_def getHalfYearlyAnalytics_def
      getAnnualAnalytics_def Let_def window_totals)

subsection \<open>Calendar normalisation\<close>

lemma normDay_valid_day: "1 \<le> d \<Longrightarrow> d \<le> daysInMonth y m \<Longrightarrow> normDay y m d = (y, m, d)"
  by (subst normDay.simps) simp

lemma normDay_zero:
  "normDay y m 0 = (case prevMonth y m of (y', m') \<Rightarrow> (y', m', daysInMonth y' m'))"
proof -
  obtain y' m' where pm: "prevMonth y m = (y', m')" by (cases "prevMonth y m")
  have "28 \<le> daysInMonth y' m'" by (simp add: daysInMonth_def)
  then have "normDay y' m' (daysInMonth y' m') = (y', m', daysInMonth y' m')"
    by (intro normDay_valid_day) auto
  then show ?thesis
    by (subst normDay.simps) (simp add: pm)
qed

lemma normDay_day_pos: "normDay y m d = (y', m', d') \<Longrightarrow> 1 \<le> d' \<and> d' \<le> daysInMonth y' m'"
proof (induction y m d rule: normDay.induct)
  case (1 y m d)
  show ?case
  proof (cases "d < 1")
    case True
    obtain a b where pm: "prevMonth y m = (a, b)" by (cases "prevMonth y m")
    from "1.prems" True pm have "normDay a b (d + daysInMonth a b) = (y', m', d')"
      by (subst (asm) normDay.simps) simp
    from "1.IH"(1) [OF True pm [symmetric] this] show ?thesis .
  next
    case False
    show ?thesis
    proof (cases "daysInMonth y m < d")
      case True
      obtain a b where nm: "nextMonth y m = (a, b)" by (cases "nextMonth y m")
      from "1.prems" False True nm have "normDay a b (d - daysInMonth y m) = (y', m', d')"
        by (subst (asm) normDay.simps) simp
      from "1.IH"(2) [OF False True nm [symmetric] this] show ?thesis .
    next
      case F2: False
      from "1.prems" False F2 have "(y, m, d) = (y', m', d')"
        by (subst (asm) normDay.simps) simp
      with False F2 show ?thesis by auto
    qed
  qed
qed

lemma day_Date_ymd_pos: "1 \<le> day (Date_ymd y m d)"
proof -
  obtain a b c where n: "normDay (yearOf y + m div 12) (m mod 12) d = (a, b, c)"
    by (metis prod_cases3)
  from normDay_day_pos [OF n] show ?thesis
    by (simp add: Date_ymd_def n)
qed

lemma Date_ymd_first:
  "Date_ymd y m 1 = \<lparr>year = yearOf y + m div 12, month = m mod 12, day = 1, msec = 0\<rparr>"
proof -
  have "1 \<le> daysInMonth (yearOf y + m div 12) (m mod 12)" by (simp add: daysInMonth_def)
  then have "normDay (yearOf y + m div 12) (m mod 12) 1 = (yearOf y + m div 12, m mod 12, 1)"
    by (intro normDay_valid_day) auto
  then show ?thesis by (simp add: Date_ymd_def)
qed

lemma succ_divmod:
  fixes m :: int
  shows "(m + 1) mod 12 = 0 \<Longrightarrow> (m + 1) div 12 - 1 = m div 12 \<and> m mod 12 = 11"
    and "(m + 1) mod 12 \<noteq> 0 \<Longrightarrow> (m + 1) div 12 = m div 12 \<and> (m + 1) mod 12 - 1 = m mod 12"
proof -
  define q r where "q = m div 12" and "r = m mod 12"
  have m: "m = 12 * q + r" and r: "0 \<le> r" "r < 12" by (simp_all add: q_def r_def)
  have A: "r = 11 \<Longrightarrow> (m + 1) div 12 = q + 1 \<and> (m + 1) mod 12 = 0"
  proof -
    assume "r = 11"
    then have "m + 1 = 12 * (q + 1)" using m by simp
    then show ?thesis by simp
  qed
  have B: "r \<noteq> 11 \<Longrightarrow> (m + 1) div 12 = q \<and> (m + 1) mod 12 = r + 1"
  proof -
    assume "r \<noteq> 11"
    with r have b: "0 \<le> r + 1" "r + 1 < 12" by auto
    have e: "m + 1 = (r + 1) + 12 * q" using m by simp
    show ?thesis unfolding e using b by (simp add: div_pos_pos_trivial mod_pos_pos_trivial)
  qed
  show "(m + 1) mod 12 = 0 \<Longrightarrow> (m + 1) div 12 - 1 = m div 12 \<and> m mod 12 = 11"
    using A B r by (cases "r = 11") (auto simp: q_def r_def)
  show "(m + 1) mod 12 \<noteq> 0 \<Longrightarrow> (m + 1) div 12 = m div 12 \<and> (m + 1) mod 12 - 1 = m mod 12"
    using A B r by (cases "r = 11") (auto simp: q_def r_def)
qed

lemma prevMonth_succ:
  "prevMonth (Y + (m + 1) div 12) ((m + 1) mod 12) = (Y + m div 12, m mod 12)"
  using succ_divmod [of m] by (auto simp: prevMonth_def)

lemma Date_ymd_last:
  "Date_ymd y (m + 1) 0 =
     \<lparr>year = yearOf y + m div 12, month = m mod 12,
      day = daysInMonth (yearOf y + m div 12) (m mod 12), msec = 0\<rparr>"
  by (simp add: Date_ymd_def normDay_zero prevMonth_succ)

lemma Date_ymd_zero:
  "Date_ymd y m 0 =
     \<lparr>year = yearOf y + (m - 1) div 12, month = (m - 1) mod 12,
      day = daysInMonth (yearOf y + (m - 1) div 12) ((m - 1) mod 12), msec = 0\<rparr>"
  using Date_ymd_last [of y "m - 1"] by simp

lemma ceil_days: "Math_ceil (real_of_int ((n - 1) * msPerDay + 86399999) / real_of_int msPerDay) = n"
proof -
  have "real_of_int ((n - 1) * msPerDay + 86399999) / real_of_int msPerDay
        = real_of_int n - 1 / 86400000"
    by (simp add: msPerDay_def field_simps)
  then show ?thesis unfolding Math_ceil_def by (simp add: ceiling_eq_iff)
qed

lemma daysInMonth_table:
  "daysInMonth y 0 = 31" "daysInMonth y 1 = (if isLeap y then 29 else 28)"
  "daysInMonth y 2 = 31" "daysInMonth y 3 = 30" "daysInMonth y 4 = 31" "daysInMonth y 5 = 30"
  "daysInMonth y 6 = 31" "daysInMonth y 7 = 31" "daysInMonth y 8 = 30" "daysInMonth y 9 = 31"
  "daysInMonth y 10 = 30" "daysInMonth y 11 = 31"
  by (simp_all add: daysInMonth_def)

lemma daysBeforeMonth_Suc:
  "0 \<le> m \<Longrightarrow> daysBeforeMonth y (m + 1) = daysBeforeMonth y m + daysInMonth y m"
  by (simp add: daysBeforeMonth_def upto_rec2)

lemma daysBeforeMonth_table:
  "daysBeforeMonth y 0 = 0"
  "daysBeforeMonth y 1 = 31"
  "daysBeforeMonth y 2 = (if isLeap y then 60 else 59)"
  "daysBeforeMonth y 3 = (if isLeap y then 91 else 90)"
  "daysBeforeMonth y 4 = (if isLeap y then 121 else 120)"
  "daysBeforeMonth y 5 = (if isLeap y then 152 else 151)"
  "daysBeforeMonth y 6 = (if isLeap y then 182 else 181)"
  "daysBeforeMonth y 7 = (if isLeap y then 213 else 212)"
  "daysBeforeMonth y 8 = (if isLeap y then 244 else 243)"
  "daysBeforeMonth y 9 = (if isLeap y then 274 else 273)"
  "daysBeforeMonth y 10 = (if isLeap y then 305 else 304)"
  "daysBeforeMonth y 11 = (if isLeap y then 335 else 334)"
proof -
  show b0: "daysBeforeMonth y 0 = 0" by (simp add: daysBeforeMonth_def)
  show b1: "daysBeforeMonth y 1 = 31"
    using daysBeforeMonth_Suc [of 0 y] b0 by (simp add: daysInMonth_table)
  show b2: "daysBeforeMonth y 2 = (if isLeap y then 60 else 59)"
    using daysBeforeMonth_Suc [of 1 y] b1 by (simp add: daysInMonth_table)
  show b3: "daysBeforeMonth y 3 = (if isLeap y then 91 else 90)"
    using daysBeforeMonth_Suc [of 2 y] b2 by (simp add: daysInMonth_table)
  show b4: "daysBeforeMonth y 4 = (if isLeap y then 121 else 120)"
    using daysBeforeMonth_Suc [of 3 y] b3 by (simp add: daysInMonth_table)
  show b5: "daysBeforeMonth y 5 = (if isLeap y then 152 else 151)"
    using daysBeforeMonth_Suc [of 4 y] b4 by (simp add: daysInMonth_table)
  show b6: "daysBeforeMonth y 6 = (if isLeap y then 182 else 181)"
    using daysBeforeMonth_Suc [of 5 y] b5 by (simp add: daysInMonth_table)
  show b7: "daysBeforeMonth y 7 = (if isLeap y then 213 else 212)"
    using daysBeforeMonth_Suc [of 6 y] b6 by (simp add: daysInMonth_table)
  show b8: "daysBeforeMonth y 8 = (if isLeap y then 244 else 243)"
    using daysBeforeMonth_Suc [of 7 y] b7 by (simp add: daysInMonth_table)
  show b9: "daysBeforeMonth y 9 = (if isLeap y then 274 else 273)"
    using daysBeforeMonth_Suc [of 8 y] b8 by (simp add: daysInMonth_table)
  show b10: "daysBeforeMonth y 10 = (if isLeap y then 305 else 304)"
    using daysBeforeMonth_Suc [of 9 y] b9 by (simp add: daysInMonth_table)
  show "daysBeforeMonth y 11 = (if isLeap y then 335 else 334)"
    using daysBeforeMonth_Suc [of 10 y] b10 by (simp add: daysInMonth_table)
qed

lemma half_divmod:
  fixes h :: int
  assumes "h mod 6 = 0"
  shows "(h + 6 - 1) div 12 = h div 12" "(h + 6 - 1) mod 12 = h mod 12 + 5"
    "h mod 12 = 0 \<or> h mod 12 = 6"
proof -
  from assms obtain k where k: "h = 6 * k" by (metis mod_eq_0_iff_dvd dvd_def)
  have c: "h mod 12 = 0 \<or> h mod 12 = 6"
  proof (cases "even k")
    case True
    then obtain j where "k = 2 * j" by (auto elim: evenE)
    then have "h = 12 * j" using k by simp
    then show ?thesis by simp
  next
    case False
    then obtain j where "k = 2 * j + 1" by (auto elim: oddE)
    then have "h = 6 + 12 * j" using k by simp
    then show ?thesis by simp
  qed
  define q r where "q = h div 12" and "r = h mod 12"
  have m: "h = 12 * q + r" by (simp add: q_def r_def)
  from c have r: "0 \<le> r + 5" "r + 5 < 12" by (auto simp: r_def)
  have e: "h + 6 - 1 = (r + 5) + 12 * q" using m by simp
  have "(h + 6 - 1) div 12 = q \<and> (h + 6 - 1) mod 12 = r + 5"
    unfolding e using r by (simp add: div_pos_pos_trivial mod_pos_pos_trivial)
  then show "(h + 6 - 1) div 12 = h div 12" "(h + 6 - 1) mod 12 = h mod 12 + 5"
    by (simp_all add: q_def r_def)
  show "h mod 12 = 0 \<or> h mod 12 = 6" by (rule c)
qed

lemma half_start:
  fixes m :: int
  assumes "0 \<le> m" "m \<le> 11"
  shows "m div 6 * 6 = (if m < 6 then 0 else 6)"
proof (cases "m < 6")
  case True
  with assms have "m div 6 = 0" by (simp add: div_pos_pos_trivial)
  with True show ?thesis by simp
next
  case False
  with assms have "0 \<le> m - 6" "m - 6 < 6" by auto
  then have "(m - 6) div 6 = 0" by (simp add: div_pos_pos_trivial)
  moreover have "m div 6 = (m - 6) div 6 + 1" by simp
  ultimately show ?thesis using False by simp
qed

lemma js_rem_4: "(js_rem y 4 = 0) = (y mod 4 = 0)"
proof -
  have "(js_rem y 4 = 0) = (\<bar>y\<bar> mod 4 = 0)"
    by (auto simp: js_rem_def sgn_if)
  also have "\<dots> = (4 dvd \<bar>y\<bar>)" by (simp add: mod_eq_0_iff_dvd)
  also have "\<dots> = (4 dvd y)" by simp
  also have "\<dots> = (y mod 4 = 0)" by (simp add: mod_eq_0_iff_dvd)
  finally show ?thesis .
qed

subsection \<open>Day counts, rates and growth\<close>

lemma getTime_first:
  "getTime \<lparr>year = Y, month = M, day = 1, msec = 0\<rparr> = monthStart Y M"
  by (simp add: getTime_def dayNumber_def monthStart_def)

lemma getTime_endOfDay:
  "getTime (endOfDay \<lparr>year = Y, month = M, day = d, msec = 0\<rparr>)
     = (dayFromYear Y + daysBeforeMonth Y M + d - 1) * msPerDay + 86399999"
  by (simp add: getTime_def dayNumber_def endOfDay_def setHours_def)

lemma day_endOfDay: "day (endOfDay d) = day d"
  by (simp add: endOfDay_def setHours_def)

lemma halfyear_days:
  assumes "h mod 6 = 0"
  shows "daysBetween (Date_ymd y h 1) (endOfDay (Date_ymd y (h + 6) 0))
    = (if h mod 12 = 0 then (if isLeap (yearOf y + h div 12) then 182 else 181) else 184)"
proof -
  note a = half_divmod(1,2) [OF assms] and b = half_divmod(3) [OF assms]
  define Y where "Y = yearOf y + h div 12"
  have s: "Date_ymd y h 1 = \<lparr>year = Y, month = h mod 12, day = 1, msec = 0\<rparr>"
    by (simp add: Date_ymd_first Y_def)
  have e: "Date_ymd y (h + 6) 0 = \<lparr>year = Y, month = h mod 12 + 5,
      day = daysInMonth Y (h mod 12 + 5), msec = 0\<rparr>"
    unfolding Date_ymd_zero a Y_def by simp
  from b show ?thesis
  proof
    assume h0: "h mod 12 = 0"
    have "getTime (endOfDay (Date_ymd y (h + 6) 0)) - getTime (Date_ymd y h 1)
        = ((if isLeap Y then 182 else 181) - 1) * msPerDay + 86399999"
      unfolding s e getTime_endOfDay getTime_first monthStart_def h0
      by (simp add: daysBeforeMonth_table daysInMonth_table algebra_simps)
    then show ?thesis
      unfolding daysBetween_def using ceil_days [of "if isLeap Y then 182 else 181"] h0
      by (simp add: Y_def)
  next
    assume h6: "h mod 12 = 6"
    have "getTime (endOfDay (Date_ymd y (h + 6) 0)) - getTime (Date_ymd y h 1)
        = (184 - 1) * msPerDay + 86399999"
      unfolding s e getTime_endOfDay getTime_first monthStart_def h6
      by (simp add: daysBeforeMonth_table daysInMonth_table algebra_simps)
    then show ?thesis
      unfolding daysBetween_def using ceil_days [of 184] h6 by simp
  qed
qed

lemma periodQuery_window:
  "\<exists>nm d. 0 < d \<and> periodQuery k P e now
      = windowAnalytics P e (fst (periodWindow k now)) (snd (periodWindow k now)) nm d"
proof (cases k)
  case Weekly
  then show ?thesis
    by (intro exI [of _ "''This Week''"] exI [of _ 7]) (simp add: getWeeklyAnalytics_def Let_def)
next
  case Monthly
  have "0 < day (endOfDay (Date_ymd (year now) (month now + 1) 0))"
    using day_Date_ymd_pos [of "year now" "month now + 1" 0] by (simp add: day_endOfDay)
  with Monthly show ?thesis
    by (intro exI [of _ "''This Month''"]
          exI [of _ "day (endOfDay (Date_ymd (year now) (month now + 1) 0))"])
       (simp add: getMonthlyAnalytics_def Let_def)
next
  case HalfYearly
  have "0 < daysBetween (Date_ymd (year now) (month now div 6 * 6) 1)
            (endOfDay (Date_ymd (year now) (month now div 6 * 6 + 6) 0))"
    by (subst halfyear_days) auto
  with HalfYearly show ?thesis
    by (intro exI [of _ "''This Half Year''"]
          exI [of _ "daysBetween (Date_ymd (year now) (month now div 6 * 6) 1)
            (endOfDay (Date_ymd (year now) (month now div 6 * 6 + 6) 0))"])
       (simp add: getHalfYearlyAnalytics_def Let_def)
next
  case Yearly
  then show ?thesis
    by (intro exI [of _ "''This Year''"] exI [of _ "if js_rem (year now) 4 = 0 then 366 else 365"])
       (simp add: getAnnualAnalytics_def Let_def)
qed

lemma daysInPeriod_pos: "0 < daysInPeriod k now"
  by (cases k) (auto simp: daysInMonth_def)

lemma compare_fields:
  "current (compare c p) = c" "previous (compare c p) = p"
  "savings_g (growth (compare c p)) = calculateGrowth (netAmount c) (netAmount p)"
  "income_g (growth (compare c p)) = calculateGrowth (totalIncome c) (totalIncome p)"
  "expenses_g (growth (compare c p)) = calculateGrowth (totalExpenses c) (totalExpenses p)"
  by (simp_all add: compare_def)

lemma comparison_compare: "\<exists>c p. comparisonQuery k P e now = compare c p"
  by (cases k) (auto simp: getWeeklyComparison_def getMonthlyComparison_def
      getHalfYearlyComparison_def getYearlyComparison_def Let_def)

lemma growth_negative_base:
  "p < 0 \<Longrightarrow> p < c \<Longrightarrow> calculateGrowth c p = ((c - p) / p) * 100 \<and> calculateGrowth c p < 0"
  by (auto simp: calculateGrowth_def divide_pos_neg mult_neg_pos)

text \<open>
  Claim C10. In every comparison, when the previous period's netAmount is negative and
  the current one is greater, the savings growth is (current - previous) / previous * 100
  with a negative divisor (the guard covers only a previous value of exactly 0), so the
  improvement is reported as a negative percentage.
\<close>

theorem savings_growth_sign:
  "netAmount (previous (comparisonQuery k P e now)) < 0 \<Longrightarrow>
   netAmount (previous (comparisonQuery k P e now)) < netAmount (current (comparisonQuery k P e now)) \<Longrightarrow>
     savings_g (growth (comparisonQuery k P e now))
       = ((netAmount (current (comparisonQuery k P e now))
            - netAmount (previous (comparisonQuery k P e now)))
          / netAmount (previous (comparisonQuery k P e now))) * 100
     \<and> savings_g (growth (comparisonQuery k P e now)) < 0"
proof -
  obtain c p where q: "comparisonQuery k P e now = compare c p"
    using comparison_compare by blast
  assume "netAmount (previous (comparisonQuery k P e now)) < 0"
    "netAmount (previous (comparisonQuery k P e now)) < netAmount (current (comparisonQuery k P e now))"
  then show ?thesis
    unfolding q compare_fields by (rule growth_negative_base)
qed

subsection \<open>The queries on the sample data\<close>

lemma sample_fields:
  "date salary = ''2024-03-01''" "type_t salary = income" "amount salary = 100" "category salary = ''Salary''"
  "date rent = ''2024-03-05''" "type_t rent = expense" "amount rent = - 300" "category rent = ''Rent''"
  "date food = ''2024-03-10''" "type_t food = expense" "amount food = 100" "category food = ''Food''"
  "date february_bill = ''2024-02-10''" "type_t february_bill = expense" "amount february_bill = 500"
  "category february_bill = ''Rent''"
  "date december_bill = ''2023-12-20''" "type_t december_bill = expense" "amount december_bill = 1000"
  "category december_bill = ''Travel''"
  by (simp_all add: salary_def rent_def food_def february_bill_def december_bill_def)

lemma sample_dates:
  "isoDates ''2023-12-20'' = Some 1703030400000"
  "isoDates ''2024-02-10'' = Some 1707523200000"
  "isoDates ''2024-03-01'' = Some 1709251200000"
  "isoDates ''2024-03-05'' = Some 1709596800000"
  "isoDates ''2024-03-10'' = Some 1710028800000"
  by (simp_all add: isoDates_def)

lemma sample_engine:
  "new_AnalyticsEngine isoDates sample
     = \<lparr>transactions = [food, rent, salary, february_bill, december_bill]\<rparr>"
  by (simp add: new_AnalyticsEngine_def sample_def sort_js_def byDateDesc_def sample_fields sample_dates)

lemma valid_mid_march: "validNow mid_march"
  by (simp add: validNow_def validDate_def mid_march_def daysInMonth_table msPerDay_def)

lemma mid_march_fields: "year mid_march = 2024" "month mid_march = 2" "day mid_march = 15"
  by (simp_all add: mid_march_def)

lemma getTime_Date:
  "getTime \<lparr>year = Y, month = M, day = d, msec = ms\<rparr>
     = (dayFromYear Y + daysBeforeMonth Y M + d - 1) * 86400000 + ms"
  by (simp add: getTime_def dayNumber_def msPerDay_def)

lemma years: "dayFromYear 2024 = 19723" "dayFromYear 2023 = 19358" "isLeap 2024" "\<not> isLeap 2023"
  by (simp_all add: dayFromYear_def isLeap_def)

lemma getDay_mid_march: "getDay mid_march = 5"
  by (simp add: getDay_def dayNumber_def mid_march_def years daysBeforeMonth_table)

lemma normDay_march: "1 \<le> d \<Longrightarrow> d \<le> 31 \<Longrightarrow> normDay 2024 2 d = (2024, 2, d)"
  by (rule normDay_valid_day) (simp_all add: daysInMonth_table)

lemma week_dates:
  "weekStart mid_march = \<lparr>year = 2024, month = 2, day = 10, msec = 0\<rparr>"
  "weekEnd \<lparr>year = 2024, month = 2, day = 10, msec = 0\<rparr>
     = \<lparr>year = 2024, month = 2, day = 16, msec = 86399999\<rparr>"
  "setDate \<lparr>year = 2024, month = 2, day = 10, msec = 0\<rparr> 3
     = \<lparr>year = 2024, month = 2, day = 3, msec = 0\<rparr>"
  "weekEnd \<lparr>year = 2024, month = 2, day = 3, msec = 0\<rparr>
     = \<lparr>year = 2024, month = 2, day = 9, msec = 86399999\<rparr>"
proof -
  have "weekStart mid_march = setHours (setDate mid_march 10) 0 0 0 0"
    unfolding weekStart_def getDay_mid_march by (simp add: mid_march_def)
  then show "weekStart mid_march = \<lparr>year = 2024, month = 2, day = 10, msec = 0\<rparr>"
    by (simp add: setDate_def setHours_def mid_march_def normDay_march)
qed (simp_all add: weekEnd_def setDate_def setHours_def normDay_march)

lemma normDay_dec: "normDay 2024 11 31 = (2024, 11, 31)" "normDay 2023 11 31 = (2023, 11, 31)"
  by (rule normDay_valid_day; simp add: daysInMonth_table)+

lemma year_dates:
  "Date_ymd 2024 11 31 = \<lparr>year = 2024, month = 11, day = 31, msec = 0\<rparr>"
  "Date_ymd 2023 11 31 = \<lparr>year = 2023, month = 11, day = 31, msec = 0\<rparr>"
  by (simp_all add: Date_ymd_def yearOf_def normDay_dec)

lemma endOfDay_Date:
  "endOfDay \<lparr>year = Y, month = M, day = d, msec = ms\<rparr> = \<lparr>year = Y, month = M, day = d, msec = 86399999\<rparr>"
  by (simp add: endOfDay_def setHours_def)

lemmas sample_eval = getTransactionsInPeriod_def sample_fields sample_dates getTime_Date years
  daysBeforeMonth_table daysInMonth_table Date_ymd_first Date_ymd_zero yearOf_def endOfDay_Date
  mid_march_fields week_dates year_dates

lemma sample_windows:
  "getTransactionsInPeriod isoDates \<lparr>transactions = [food, rent, salary, february_bill, december_bill]\<rparr>
     (Date_ymd 2024 2 1) (endOfDay (Date_ymd 2024 3 0)) = [food, rent, salary]"
  "getTransactionsInPeriod isoDates \<lparr>transactions = [food, rent, salary, february_bill, december_bill]\<rparr>
     (Date_ymd 2024 1 1) (endOfDay (Date_ymd 2024 2 0)) = [february_bill]"
  "getTransactionsInPeriod isoDates \<lparr>transactions = [food, rent, salary, february_bill, december_bill]\<rparr>
     (weekStart mid_march) (weekEnd (weekStart mid_march)) = [food]"
  "getTransactionsInPeriod isoDates \<lparr>transactions = [food, rent, salary, february_bill, december_bill]\<rparr>
     (setDate (weekStart mid_march) (day (weekStart mid_march) - 7))
     (weekEnd (setDate (weekStart mid_march) (day (weekStart mid_march) - 7))) = [rent]"
  "getTransactionsInPeriod isoDates \<lparr>transactions = [food, rent, salary, february_bill, december_bill]\<rparr>
     (Date_ymd 2024 0 1) (endOfDay (Date_ymd 2024 6 0)) = [food, rent, salary, february_bill]"
  "getTransactionsInPeriod isoDates \<lparr>transactions = [food, rent, salary, february_bill, december_bill]\<rparr>
     (Date_ymd 2023 6 1) (endOfDay (Date_ymd 2023 12 0)) = [december_bill]"
  "getTransactionsInPeriod isoDates \<lparr>transactions = [food, rent, salary, february_bill, december_bill]\<rparr>
     (Date_ymd 2024 0 1) (endOfDay (Date_ymd 2024 11 31)) = [food, rent, salary, february_bill]"
  "getTransactionsInPeriod isoDates \<lparr>transactions = [food, rent, salary, february_bill, december_bill]\<rparr>
     (Date_ymd 2023 0 1) (endOfDay (Date_ymd 2023 11 31)) = [december_bill]"
  by (simp_all add: sample_eval)

lemma window_net:
  "netAmount (windowAnalytics P e s e' nm d)
     = absTotal income (getTransactionsInPeriod P e s e') - absTotal expense (getTransactionsInPeriod P e s e')"
  by (simp add: windowAnalytics_def analytics_fields)

lemma sample_nets:
  "netAmount (current (getWeeklyComparison isoDates (new_AnalyticsEngine isoDates sample) mid_march)) = - 100"
  "netAmount (previous (getWeeklyComparison isoDates (new_AnalyticsEngine isoDates sample) mid_march)) = - 300"
  "netAmount (current (getMonthlyComparison isoDates (new_AnalyticsEngine isoDates sample) mid_march)) = - 300"
  "netAmount (previous (getMonthlyComparison isoDates (new_AnalyticsEngine isoDates sample) mid_march)) = - 500"
  "netAmount (current (getHalfYearlyComparison isoDates (new_AnalyticsEngine isoDates sample) mid_march)) = - 800"
  "netAmount (previous (getHalfYearlyComparison isoDates (new_AnalyticsEngine isoDates sample) mid_march)) = - 1000"
  "netAmount (current (getYearlyComparison isoDates (new_AnalyticsEngine isoDates sample) mid_march)) = - 800"
  "netAmount (previous (getYearlyComparison isoDates (new_AnalyticsEngine isoDates sample) mid_march)) = - 1000"
  by (simp_all add: getWeeklyComparison_def getMonthlyComparison_def getHalfYearlyComparison_def
      getYearlyComparison_def Let_def compare_fields window_net sample_engine sample_windows
      mid_march_fields absTotal_def sample_fields)

theorem savings_growth_sign_witness:
  "savings_g (growth (comparisonQuery Weekly isoDates (new_AnalyticsEngine isoDates sample) mid_march)) = - (200 / 3)
   \<and> savings_g (growth (comparisonQuery Monthly isoDates (new_AnalyticsEngine isoDates sample) mid_march)) = - 40
   \<and> savings_g (growth (comparisonQuery HalfYearly isoDates (new_AnalyticsEngine isoDates sample) mid_march)) = - 20
   \<and> savings_g (growth (comparisonQuery Yearly isoDates (new_AnalyticsEngine isoDates sample) mid_march)) = - 20"
  using savings_growth_sign [of Weekly isoDates "new_AnalyticsEngine isoDates sample" mid_march]
    savings_growth_sign [of Monthly isoDates "new_AnalyticsEngine isoDates sample" mid_march]
    savings_growth_sign [of HalfYearly isoDates "new_AnalyticsEngine isoDates sample" mid_march]
    savings_growth_sign [of Yearly isoDates "new_AnalyticsEngine isoDates sample" mid_march]
  by (simp add: sample_nets)

subsection \<open>The empty transaction list\<close>

lemma empty_engine: "new_AnalyticsEngine P [] = \<lparr>transactions = []\<rparr>"
  by (simp add: new_AnalyticsEngine_def sort_js_def)

lemma empty_window: "getTransactionsInPeriod P \<lparr>transactions = []\<rparr> s e = []"
  by (simp add: getTransactionsInPeriod_def)

lemma empty_analytics:
  "windowAnalytics P \<lparr>transactions = []\<rparr> s e nm d
     = \<lparr>period = nm, totalIncome = 0, totalExpenses = 0, netAmount = 0, transactionCount = 0,
        topCategories = [], averageDaily = (if d = 0 then None else Some 0), savingsRate = 0\<rparr>"
  by (simp add: windowAnalytics_def empty_window calculatePeriodAnalytics_def sumAbs_def sort_js_def)

lemma empty_period:
  "\<exists>nm. periodQuery k P \<lparr>transactions = []\<rparr> now
     = \<lparr>period = nm, totalIncome = 0, totalExpenses = 0, netAmount = 0, transactionCount = 0,
        topCategories = [], averageDaily = Some 0, savingsRate = 0\<rparr>"
proof -
  obtain nm d where "0 < d" and "periodQuery k P \<lparr>transactions = []\<rparr> now
      = windowAnalytics P \<lparr>transactions = []\<rparr> (fst (periodWindow k now)) (snd (periodWindow k now)) nm d"
    using periodQuery_window by blast
  then show ?thesis by (intro exI [of _ nm]) (simp add: empty_analytics)
qed

lemma trends_unrolled:
  "getSpendingTrends P e now = map (trendPoint P e now) [5, 4, 3, 2, 1, 0]"
  by (simp add: getSpendingTrends_def trendsLoop.simps)

lemma empty_trendPoint: "expenses_t (trendPoint P \<lparr>transactions = []\<rparr> now i) = 0"
  by (simp add: trendPoint_def Let_def empty_window sumAbs_def)

lemma variation_zeros: "calculateVariation [0, 0, 0, 0, 0, 0] = 0"
  by (simp add: calculateVariation_def)

lemma empty_monthly:
  "savingsRate (getMonthlyAnalytics P \<lparr>transactions = []\<rparr> now) = 0"
  "topCategories (getMonthlyAnalytics P \<lparr>transactions = []\<rparr> now) = []"
  by (simp_all add: getMonthlyAnalytics_def Let_def empty_analytics)

lemma empty_income_growth:
  "income_g (growth (getMonthlyComparison P \<lparr>transactions = []\<rparr> now)) = 0"
  by (simp add: getMonthlyComparison_def Let_def compare_fields empty_analytics calculateGrowth_def)

lemma empty_health:
  "map score_f (factors (getFinancialHealthScore P (new_AnalyticsEngine P []) now)) = [0, 100, 50, 100]"
  "map name (factors (getFinancialHealthScore P (new_AnalyticsEngine P []) now))
     = [''Savings Rate'', ''Spending Consistency'', ''Income Growth'', ''Expense Balance'']"
  "score (getFinancialHealthScore P (new_AnalyticsEngine P []) now) = 60"
  by (simp_all add: getFinancialHealthScore_def Let_def empty_engine empty_monthly
      empty_income_growth trends_unrolled empty_trendPoint variation_zeros Math_round_def)

text \<open>
  For the empty list the claim C3 expects the sub-scores 0, 0, 0 and 100. The Spending
  Consistency and Income Growth sub-scores are not 0 there.
\<close>

theorem empty_list_consistency_counterexample:
  "map score_f (factors (getFinancialHealthScore isoDates (new_AnalyticsEngine isoDates []) mid_march))
     \<noteq> [0, 0, 0, 100]"
  by (simp add: empty_health)

text \<open>
  Claim C3, as amended. For the empty transaction list every period query returns a
  summary with 0 income, 0 expenses, 0 netAmount, no top categories, savingsRate 0 and
  averageDaily 0, and the health score has the sub-scores Savings Rate 0, Spending
  Consistency 100 (no variation), Income Growth 50 (growth 0) and Expense Balance 100 (no
  categories), with the overall score 60.
\<close>

theorem empty_list_results:
  "totalIncome (periodQuery k P (new_AnalyticsEngine P []) now) = 0
   \<and> totalExpenses (periodQuery k P (new_AnalyticsEngine P []) now) = 0
   \<and> netAmount (periodQuery k P (new_AnalyticsEngine P []) now) = 0
   \<and> topCategories (periodQuery k P (new_AnalyticsEngine P []) now) = []
   \<and> savingsRate (periodQuery k P (new_AnalyticsEngine P []) now) = 0
   \<and> averageDaily (periodQuery k P (new_AnalyticsEngine P []) now) = Some 0
   \<and> map name (factors (getFinancialHealthScore P (new_AnalyticsEngine P []) now))
       = [''Savings Rate'', ''Spending Consistency'', ''Income Growth'', ''Expense Balance'']
   \<and> map score_f (factors (getFinancialHealthScore P (new_AnalyticsEngine P []) now))
       = [0, 100, 50, 100]
   \<and> score (getFinancialHealthScore P (new_AnalyticsEngine P []) now) = 60"
proof -
  obtain nm where "periodQuery k P \<lparr>transactions = []\<rparr> now
     = \<lparr>period = nm, totalIncome = 0, totalExpenses = 0, netAmount = 0, transactionCount = 0,
        topCategories = [], averageDaily = Some 0, savingsRate = 0\<rparr>"
    using empty_period by blast
  then show ?thesis using empty_health [of P now] by (simp add: empty_engine)
qed

subsection \<open>Spending trends\<close>

lemma months_back_range:
  fixes m i :: int
  assumes "0 \<le> m" "0 \<le> i" "i \<le> 12"
  shows "- 1 \<le> (m - i) div 12"
proof -
  have "(- 12) div 12 \<le> (m - i) div 12"
    by (rule zdiv_mono1) (use assms in auto)
  then show ?thesis by simp
qed

lemma month_window_filter:
  assumes Y: "yearOf Y = Y" and M: "0 \<le> M" "M < 12"
  shows "getTransactionsInPeriod P e (Date_ymd Y M 1) (endOfDay (Date_ymd Y (M + 1) 0))
     = filter (inMonth P Y M) (transactions e)"
proof -
  from M have dm: "M div 12 = 0" "M mod 12 = M"
    by (simp_all add: div_pos_pos_trivial mod_pos_pos_trivial)
  have s: "getTime (Date_ymd Y M 1) = monthStart Y M"
    by (simp add: Date_ymd_first Y dm getTime_first)
  have d: "Date_ymd Y (M + 1) 0 = \<lparr>year = Y, month = M, day = daysInMonth Y M, msec = 0\<rparr>"
    by (simp add: Date_ymd_last Y dm)
  have e: "getTime (endOfDay (Date_ymd Y (M + 1) 0))
      = monthStart Y M + daysInMonth Y M * msPerDay - 1"
    unfolding d getTime_endOfDay monthStart_def by (simp add: msPerDay_def algebra_simps)
  show ?thesis
    unfolding getTransactionsInPeriod_def s e
    by (rule filter_cong) (auto simp: inMonth_def split: option.splits)
qed

lemma trendPoint_month:
  assumes v: "validNow now" and i: "0 \<le> i" "i \<le> 5"
  shows "trendPoint P (new_AnalyticsEngine P txs) now i = monthPoint P txs (monthsBack now i)"
proof -
  from v have m: "0 \<le> month now" "month now \<le> 11" and y: "1970 \<le> year now"
    by (auto simp: validNow_def validDate_def)
  define Y M where "Y = year now + (month now - i) div 12" and "M = (month now - i) mod 12"
  have yo: "yearOf (year now) = year now" using y by (simp add: yearOf_def)
  have "- 1 \<le> (month now - i) div 12" using months_back_range [of "month now" i] m i by simp
  with y have Y: "yearOf Y = Y" by (simp add: yearOf_def Y_def)
  have M: "0 \<le> M" "M < 12" by (simp_all add: M_def)
  have md: "Date_ymd (year now) (month now - i) 1 = \<lparr>year = Y, month = M, day = 1, msec = 0\<rparr>"
    by (simp add: Date_ymd_first yo Y_def M_def)
  have mb: "monthsBack now i = (Y, M)" by (simp add: monthsBack_def Y_def M_def)
  have t: "sumAbs (filter (\<lambda>x. inMonth P Y M x \<and> type_t x = ty) (sort_js (byDateDesc P) txs))
      = absTotal ty (filter (inMonth P Y M) txs)" for ty
  proof -
    have "sumAbs (filter (\<lambda>t. type_t t = ty) (filter (inMonth P Y M) (sort_js (byDateDesc P) txs)))
      = absTotal ty (filter (inMonth P Y M) txs)"
      unfolding sumAbs_type by (rule absTotal_mset) (simp add: mset_sort_js)
    then show ?thesis by simp
  qed
  show ?thesis
    unfolding trendPoint_def md mb Let_def
    by (simp add: month_window_filter [OF Y M] new_AnalyticsEngine_def t monthPoint_def)
qed

lemma monthsBack_index:
  "fst (monthsBack now i) * 12 + snd (monthsBack now i) = year now * 12 + month now - i"
  by (simp add: monthsBack_def algebra_simps)

text \<open>
  Claim C8. For every transaction list and every current date, getSpendingTrends returns
  exactly 6 points, oldest first, for the calendar months from 5 months before the
  current month up to the current month itself; each point totals the income and the
  expenses of that calendar month only, and its savings are income - expenses.
\<close>

theorem spending_trends:
  "validNow now \<Longrightarrow>
     getSpendingTrends P (new_AnalyticsEngine P txs) now
       = map (\<lambda>i. monthPoint P txs (monthsBack now i)) [5, 4, 3, 2, 1, 0]
     \<and> length (getSpendingTrends P (new_AnalyticsEngine P txs) now) = 6
     \<and> monthsBack now 0 = (year now, month now)
     \<and> fst (monthsBack now i) * 12 + snd (monthsBack now i) = year now * 12 + month now - i"
proof -
  assume v: "validNow now"
  then have m: "0 \<le> month now" "month now < 12"
    by (auto simp: validNow_def validDate_def)
  then have "monthsBack now 0 = (year now, month now)"
    by (simp add: monthsBack_def div_pos_pos_trivial mod_pos_pos_trivial)
  then show ?thesis
    by (simp add: trends_unrolled trendPoint_month [OF v] monthsBack_index)
qed

subsection \<open>Trends of the sample data\<close>

lemma sample_months:
  "filter (inMonth isoDates 2023 9) sample = []"
  "filter (inMonth isoDates 2023 10) sample = []"
  "filter (inMonth isoDates 2023 11) sample = [december_bill]"
  "filter (inMonth isoDates 2024 0) sample = []"
  "filter (inMonth isoDates 2024 1) sample = [february_bill]"
  "filter (inMonth isoDates 2024 2) sample = [salary, rent, food]"
  by (simp_all add: inMonth_def monthStart_def years daysBeforeMonth_table daysInMonth_table
      msPerDay_def sample_def sample_fields sample_dates)

lemma sample_monthsBack:
  "monthsBack mid_march 5 = (2023, 9)" "monthsBack mid_march 4 = (2023, 10)"
  "monthsBack mid_march 3 = (2023, 11)" "monthsBack mid_march 2 = (2024, 0)"
  "monthsBack mid_march 1 = (2024, 1)" "monthsBack mid_march 0 = (2024, 2)"
  by (simp_all add: monthsBack_def mid_march_fields)

lemma sample_labels:
  "monthLabel \<lparr>year = 2023, month = 9, day = 1, msec = 0\<rparr> = ''Oct 23''"
  "monthLabel \<lparr>year = 2023, month = 10, day = 1, msec = 0\<rparr> = ''Nov 23''"
  "monthLabel \<lparr>year = 2023, month = 11, day = 1, msec = 0\<rparr> = ''Dec 23''"
  "monthLabel \<lparr>year = 2024, month = 0, day = 1, msec = 0\<rparr> = ''Jan 24''"
  "monthLabel \<lparr>year = 2024, month = 1, day = 1, msec = 0\<rparr> = ''Feb 24''"
  "monthLabel \<lparr>year = 2024, month = 2, day = 1, msec = 0\<rparr> = ''Mar 24''"
  by (simp_all add: monthLabel_def shortMonths_def digit_def)


lemma sample_points:
  "monthPoint isoDates sample (2023, 9) = \<lparr>month_t = ''Oct 23'', income_t = 0, expenses_t = 0, savings_t = 0\<rparr>"
  "monthPoint isoDates sample (2023, 10) = \<lparr>month_t = ''Nov 23'', income_t = 0, expenses_t = 0, savings_t = 0\<rparr>"
  "monthPoint isoDates sample (2023, 11) = \<lparr>month_t = ''Dec 23'', income_t = 0, expenses_t = 1000, savings_t = - 1000\<rparr>"
  "monthPoint isoDates sample (2024, 0) = \<lparr>month_t = ''Jan 24'', income_t = 0, expenses_t = 0, savings_t = 0\<rparr>"
  "monthPoint isoDates sample (2024, 1) = \<lparr>month_t = ''Feb 24'', income_t = 0, expenses_t = 500, savings_t = - 500\<rparr>"
  "monthPoint isoDates sample (2024, 2) = \<lparr>month_t = ''Mar 24'', income_t = 100, expenses_t = 400, savings_t = - 300\<rparr>"
  unfolding monthPoint_def prod.case sample_months
  by (simp_all add: sample_labels absTotal_def sample_fields)

theorem spending_trends_witness:
  "validNow mid_march
   \<and> getSpendingTrends isoDates (new_AnalyticsEngine isoDates sample) mid_march
       = [\<lparr>month_t = ''Oct 23'', income_t = 0, expenses_t = 0, savings_t = 0\<rparr>,
          \<lparr>month_t = ''Nov 23'', income_t = 0, expenses_t = 0, savings_t = 0\<rparr>,
          \<lparr>month_t = ''Dec 23'', income_t = 0, expenses_t = 1000, savings_t = - 1000\<rparr>,
          \<lparr>month_t = ''Jan 24'', income_t = 0, expenses_t = 0, savings_t = 0\<rparr>,
          \<lparr>month_t = ''Feb 24'', income_t = 0, expenses_t = 500, savings_t = - 500\<rparr>,
          \<lparr>month_t = ''Mar 24'', income_t = 100, expenses_t = 400, savings_t = - 300\<rparr>]"
  using spending_trends [OF valid_mid_march, of isoDates sample 0] valid_mid_march
  by (simp add: sample_monthsBack sample_points)

subsection \<open>A month with more expenses than income\<close>

lemma overspent_engine: "new_AnalyticsEngine isoDates overspent = \<lparr>transactions = [rent, salary]\<rparr>"
  by (simp add: new_AnalyticsEngine_def overspent_def sort_js_def byDateDesc_def sample_fields sample_dates)

lemma overspent_windows:
  "getTransactionsInPeriod isoDates \<lparr>transactions = [rent, salary]\<rparr>
     (Date_ymd 2024 2 1) (endOfDay (Date_ymd 2024 3 0)) = [rent, salary]"
  "getTransactionsInPeriod isoDates \<lparr>transactions = [rent, salary]\<rparr>
     (Date_ymd 2024 1 1) (endOfDay (Date_ymd 2024 2 0)) = []"
  by (simp_all add: sample_eval)

lemma overspent_month:
  "calculatePeriodAnalytics [rent, salary] nm 31
   = \<lparr>period = nm, totalIncome = 100, totalExpenses = 300, netAmount = - 200,
      transactionCount = 2,
      topCategories = [\<lparr>category_s = ''Rent'', amount_s = 300, count_s = 1, percentage = 100\<rparr>],
      averageDaily = Some (300 / 31), savingsRate = - 200\<rparr>"
  by (simp add: calculatePeriodAnalytics_def Let_def sumAbs_def sample_fields addCategory_def
      sort_js_def byAmountDesc_def)

lemma overspent_monthly:
  "getMonthlyAnalytics isoDates \<lparr>transactions = [rent, salary]\<rparr> mid_march
   = \<lparr>period = ''This Month'', totalIncome = 100, totalExpenses = 300, netAmount = - 200,
      transactionCount = 2,
      topCategories = [\<lparr>category_s = ''Rent'', amount_s = 300, count_s = 1, percentage = 100\<rparr>],
      averageDaily = Some (300 / 31), savingsRate = - 200\<rparr>"
proof -
  have "day (endOfDay (Date_ymd 2024 3 0)) = 31"
    by (simp add: Date_ymd_zero yearOf_def endOfDay_Date daysInMonth_table)
  then show ?thesis
    by (simp add: getMonthlyAnalytics_def Let_def windowAnalytics_def mid_march_fields
        overspent_windows overspent_month)
qed

lemma overspent_income_growth:
  "income_g (growth (getMonthlyComparison isoDates \<lparr>transactions = [rent, salary]\<rparr> mid_march)) = 100"
  by (simp add: getMonthlyComparison_def Let_def compare_fields windowAnalytics_def analytics_fields
      mid_march_fields overspent_windows absTotal_def sample_fields calculateGrowth_def)

lemma overspent_months:
  "filter (inMonth isoDates 2023 9) overspent = []"
  "filter (inMonth isoDates 2023 10) overspent = []"
  "filter (inMonth isoDates 2023 11) overspent = []"
  "filter (inMonth isoDates 2024 0) overspent = []"
  "filter (inMonth isoDates 2024 1) overspent = []"
  "filter (inMonth isoDates 2024 2) overspent = [salary, rent]"
  by (simp_all add: inMonth_def monthStart_def years daysBeforeMonth_table daysInMonth_table
      msPerDay_def overspent_def sample_fields sample_dates)

lemma overspent_points:
  "expenses_t (monthPoint isoDates overspent (2023, 9)) = 0"
  "expenses_t (monthPoint isoDates overspent (2023, 10)) = 0"
  "expenses_t (monthPoint isoDates overspent (2023, 11)) = 0"
  "expenses_t (monthPoint isoDates overspent (2024, 0)) = 0"
  "expenses_t (monthPoint isoDates overspent (2024, 1)) = 0"
  "expenses_t (monthPoint isoDates overspent (2024, 2)) = 300"
  unfolding monthPoint_def prod.case overspent_months
  by (simp_all add: absTotal_def sample_fields)

lemma overspent_trend:
  "map expenses_t (getSpendingTrends isoDates (new_AnalyticsEngine isoDates overspent) mid_march)
     = [0, 0, 0, 0, 0, 300]"
  by (simp add: trends_unrolled trendPoint_month [OF valid_mid_march] sample_monthsBack
      overspent_points)

lemma overspent_variation: "100 \<le> calculateVariation [0, 0, 0, 0, 0, 300]"
proof -
  have "(50::real)\<^sup>2 \<le> 12500" by simp
  then have "50 \<le> sqrt 12500" by (rule real_le_rsqrt)
  moreover have "calculateVariation [0, 0, 0, 0, 0, 300] = (sqrt 12500 / 50) * 100"
    by (simp add: calculateVariation_def Let_def power2_eq_square)
  ultimately show ?thesis by simp
qed

text \<open>
  Claim C2 says that the four sub-scores lie between 0 and 100 and that the overall score
  is an integer between 0 and 100, also when expenses exceed income. The savings
  sub-score is only capped from above: with an income of 100 and expenses of 300 in the
  current month it is -400, and the overall score is -92.
\<close>

theorem overspent_health_score:
  "map score_f (factors (getFinancialHealthScore isoDates (new_AnalyticsEngine isoDates overspent) mid_march))
     = [- 400, 0, 100, 30]
   \<and> score (getFinancialHealthScore isoDates (new_AnalyticsEngine isoDates overspent) mid_march) = - 92"
  using overspent_variation overspent_trend [unfolded overspent_engine]
  by (simp add: getFinancialHealthScore_def Let_def overspent_engine overspent_monthly
      overspent_income_growth Math_round_def)

subsection \<open>Rounding to doubles\<close>

lemma pow2_pos: "0 < pow2 e"
  by (simp add: pow2_def)

lemma pow2_mono: "a \<le> b \<Longrightarrow> pow2 a \<le> pow2 b"
  unfolding pow2_def by (rule power_int_increasing) simp_all

lemma expoDown_eq:
  "e \<le> s \<Longrightarrow> nat (s - e) \<le> n \<Longrightarrow> pow2 e \<le> x \<Longrightarrow> x < pow2 (e + 1) \<Longrightarrow> expoDown n x s = e"
proof (induction n arbitrary: s)
  case 0
  then show ?case by simp
next
  case (Suc n)
  show ?case
  proof (cases "s = e")
    case True
    with Suc.prems show ?thesis by simp
  next
    case False
    with Suc.prems have lt: "e + 1 \<le> s" by simp
    then have "pow2 (e + 1) \<le> pow2 s" by (rule pow2_mono)
    with Suc.prems have "\<not> pow2 s \<le> x" by simp
    moreover have "expoDown n x (s - 1) = e"
      using Suc.prems lt by (intro Suc.IH) auto
    ultimately show ?thesis by simp
  qed
qed

lemma exponent_eq:
  "pow2 e \<le> \<bar>x\<bar> \<Longrightarrow> \<bar>x\<bar> < pow2 (e + 1) \<Longrightarrow> - 1022 \<le> e \<Longrightarrow> e \<le> 1023 \<Longrightarrow> exponent x = e"
  unfolding exponent_def by (rule expoDown_eq) auto

lemma roundEven_eq:
  assumes "real_of_int n - 1 / 2 < y" "y < real_of_int n + 1 / 2"
  shows "roundEven y = n"
proof -
  have "\<lfloor>y\<rfloor> = n \<or> \<lfloor>y\<rfloor> = n - 1" using assms by linarith
  then show ?thesis
  proof
    assume f: "\<lfloor>y\<rfloor> = n"
    with assms show ?thesis by (simp add: roundEven_def Let_def)
  next
    assume f: "\<lfloor>y\<rfloor> = n - 1"
    with assms have "1 / 2 < y - real_of_int (n - 1)" by simp
    with f show ?thesis by (simp add: roundEven_def Let_def)
  qed
qed

lemma fl_eq:
  assumes "pow2 e \<le> \<bar>x\<bar>" "\<bar>x\<bar> < pow2 (e + 1)" "- 1022 \<le> e" "e \<le> 1023"
    and "real_of_int n - 1 / 2 < x / pow2 (e - 52)" "x / pow2 (e - 52) < real_of_int n + 1 / 2"
  shows "fl x = real_of_int n * pow2 (e - 52)"
  unfolding fl_def exponent_eq [OF assms(1-4)] roundEven_eq [OF assms(5,6)] ..


lemma fl_values:
  "fl 10 = 10" "fl 20 = 20" "fl 30 = 30"
  "fl (1 / 3) = 6004799503160661 / 2 ^ 54"
  "fl (6004799503160661 / 2 ^ 54 * 100) = 4691249611844266 / 2 ^ 47"
proof -
  show "fl 10 = 10" using fl_eq [of 3 10 "10 * 2 ^ 49"] by (simp add: pow2_def)
  show "fl 20 = 20" using fl_eq [of 4 20 "20 * 2 ^ 48"] by (simp add: pow2_def)
  show "fl 30 = 30" using fl_eq [of 4 30 "30 * 2 ^ 48"] by (simp add: pow2_def)
  show "fl (1 / 3) = 6004799503160661 / 2 ^ 54"
    using fl_eq [of "- 2" "1 / 3" 6004799503160661] by (simp add: pow2_def)
  show "fl (6004799503160661 / 2 ^ 54 * 100) = 4691249611844266 / 2 ^ 47"
    using fl_eq [of 5 "6004799503160661 / 2 ^ 54 * 100" 4691249611844266] by (simp add: pow2_def)
qed


lemma roundEven_of_int: "roundEven (real_of_int k) = k"
  by (simp add: roundEven_def)

lemma roundEven_cases: "roundEven z = \<lfloor>z\<rfloor> \<or> roundEven z = \<lfloor>z\<rfloor> + 1"
  by (simp add: roundEven_def Let_def)

lemma roundEven_ge: "real_of_int k \<le> z \<Longrightarrow> k \<le> roundEven z"
proof -
  assume "real_of_int k \<le> z"
  then have "k \<le> \<lfloor>z\<rfloor>" by (simp add: le_floor_iff)
  with roundEven_cases [of z] show ?thesis by auto
qed

lemma roundEven_le: "z \<le> real_of_int k \<Longrightarrow> roundEven z \<le> k"
proof (cases "z = real_of_int k")
  case True
  then show ?thesis by (simp add: roundEven_of_int)
next
  case False
  assume "z \<le> real_of_int k"
  with False have "z < real_of_int k" by simp
  then have "\<lfloor>z\<rfloor> < k" by (simp add: floor_less_iff)
  with roundEven_cases [of z] show ?thesis by auto
qed

lemma roundEven_mono: "z \<le> w \<Longrightarrow> roundEven z \<le> roundEven w"
proof -
  assume zw: "z \<le> w"
  then have fg: "\<lfloor>z\<rfloor> \<le> \<lfloor>w\<rfloor>" by (rule floor_mono)
  show ?thesis
  proof (cases "\<lfloor>z\<rfloor> = \<lfloor>w\<rfloor>")
    case False
    with fg have "\<lfloor>z\<rfloor> + 1 \<le> \<lfloor>w\<rfloor>" by simp
    with roundEven_cases [of z] roundEven_cases [of w] show ?thesis by auto
  next
    case True
    with zw have "z - real_of_int \<lfloor>z\<rfloor> \<le> w - real_of_int \<lfloor>w\<rfloor>" by simp
    with True show ?thesis by (auto simp: roundEven_def Let_def)
  qed
qed

lemma pow2_strict: "a < b \<Longrightarrow> pow2 a < pow2 b"
  unfolding pow2_def by (rule power_int_strict_increasing) simp_all

lemma pow2_add: "pow2 (a + b) = pow2 a * pow2 b"
  unfolding pow2_def by (rule power_int_add) simp

lemma pow2_53: "pow2 (e + 1) = 2 ^ 53 * pow2 (e - 52)" "pow2 e = 2 ^ 52 * pow2 (e - 52)"
proof -
  have "power_int (2::real) (53 + (e - 52)) = power_int 2 53 * power_int 2 (e - 52)"
    by (rule power_int_add) simp
  moreover have "53 + (e - 52) = e + 1" by simp
  ultimately show "pow2 (e + 1) = 2 ^ 53 * pow2 (e - 52)" by (simp add: pow2_def)
  have "power_int (2::real) (52 + (e - 52)) = power_int 2 52 * power_int 2 (e - 52)"
    by (rule power_int_add) simp
  moreover have "52 + (e - 52) = e" by simp
  ultimately show "pow2 e = 2 ^ 52 * pow2 (e - 52)" by (simp add: pow2_def)
qed

lemma expoDown_range:
  "s - int n \<le> expoDown n x s \<and> expoDown n x s \<le> s
   \<and> (expoDown n x s < s \<longrightarrow> x < pow2 (expoDown n x s + 1))
   \<and> (s - int n < expoDown n x s \<longrightarrow> pow2 (expoDown n x s) \<le> x)"
proof (induction n arbitrary: s)
  case 0
  show ?case by simp
next
  case (Suc n)
  show ?case
  proof (cases "pow2 s \<le> x")
    case True
    then show ?thesis by simp
  next
    case False
    with Suc [of "s - 1"] show ?thesis
      by (cases "expoDown n x (s - 1) = s - 1") auto
  qed
qed

lemma exponent_range:
  "- 1022 \<le> exponent x \<and> exponent x \<le> 1023
   \<and> (exponent x < 1023 \<longrightarrow> \<bar>x\<bar> < pow2 (exponent x + 1))
   \<and> (- 1022 < exponent x \<longrightarrow> pow2 (exponent x) \<le> \<bar>x\<bar>)"
  using expoDown_range [of 1023 2045 "\<bar>x\<bar>"] by (simp add: exponent_def)

lemma exponent_small: "\<bar>x\<bar> < pow2 (- 1022) \<Longrightarrow> exponent x = - 1022"
proof (rule ccontr)
  assume x: "\<bar>x\<bar> < pow2 (- 1022)" and "exponent x \<noteq> - 1022"
  with exponent_range [of x] have e: "- 1022 < exponent x" "pow2 (exponent x) \<le> \<bar>x\<bar>" by auto
  then have "pow2 (- 1022) \<le> pow2 (exponent x)" by (intro pow2_mono) simp
  with e x show False by simp
qed

lemma fl_zero: "fl 0 = 0"
  by (simp add: fl_def roundEven_def)

lemma fl_nonneg: "0 \<le> x \<Longrightarrow> 0 \<le> fl x"
proof -
  assume "0 \<le> x"
  then have "0 \<le> x / pow2 (exponent x - 52)" using pow2_pos [of "exponent x - 52"] by simp
  then have "0 \<le> roundEven (x / pow2 (exponent x - 52))"
    using roundEven_ge [of 0] by simp
  then show ?thesis using pow2_pos [of "exponent x - 52"] by (simp add: fl_def)
qed

lemma exponent_mono:
  assumes "0 \<le> x" "x \<le> y"
  shows "exponent x \<le> exponent y"
proof (rule ccontr)
  assume "\<not> exponent x \<le> exponent y"
  then have lt: "exponent y < exponent x" by simp
  with exponent_range [of x] exponent_range [of y]
  have a: "pow2 (exponent x) \<le> \<bar>x\<bar>" and b: "\<bar>y\<bar> < pow2 (exponent y + 1)" by auto
  from lt have "pow2 (exponent y + 1) \<le> pow2 (exponent x)" by (intro pow2_mono) simp
  with a b assms show False by simp
qed

lemma fl_upper:
  assumes "0 \<le> x" "exponent x < 1023"
  shows "fl x \<le> pow2 (exponent x + 1)"
proof -
  let ?u = "pow2 (exponent x - 52)"
  have u: "0 < ?u" by (rule pow2_pos)
  from assms exponent_range [of x] have "x < pow2 (exponent x + 1)" by auto
  then have "x < 2 ^ 53 * ?u" by (simp only: pow2_53(1))
  then have "x / ?u < 2 ^ 53" using u by (simp add: field_simps)
  then have "x / ?u \<le> real_of_int (2 ^ 53)" by simp
  then have "roundEven (x / ?u) \<le> 2 ^ 53" by (rule roundEven_le)
  then have "real_of_int (roundEven (x / ?u)) \<le> real_of_int (2 ^ 53)"
    by (simp only: of_int_le_iff)
  then have "real_of_int (roundEven (x / ?u)) \<le> 2 ^ 53" by simp
  then have "real_of_int (roundEven (x / ?u)) * ?u \<le> 2 ^ 53 * ?u"
    using u by (simp add: mult_right_mono)
  then show ?thesis by (simp add: fl_def pow2_53(1) [of "exponent x"])
qed

lemma fl_lower:
  assumes "0 \<le> x" "- 1022 < exponent x"
  shows "pow2 (exponent x) \<le> fl x"
proof -
  let ?u = "pow2 (exponent x - 52)"
  have u: "0 < ?u" by (rule pow2_pos)
  from assms exponent_range [of x] have "pow2 (exponent x) \<le> x" by auto
  then have "2 ^ 52 * ?u \<le> x" using pow2_53(2) [of "exponent x"] by simp
  then have "2 ^ 52 \<le> x / ?u" using u by (simp add: field_simps)
  then have "real_of_int (2 ^ 52) \<le> x / ?u" by simp
  then have "2 ^ 52 \<le> roundEven (x / ?u)" by (rule roundEven_ge)
  then have "real_of_int (2 ^ 52) \<le> real_of_int (roundEven (x / ?u))"
    by (simp only: of_int_le_iff)
  then have "2 ^ 52 \<le> real_of_int (roundEven (x / ?u))" by simp
  then have "2 ^ 52 * ?u \<le> real_of_int (roundEven (x / ?u)) * ?u"
    using u by (simp add: mult_right_mono)
  then show ?thesis by (simp add: fl_def pow2_53(2) [of "exponent x"])
qed

lemma fl_mono:
  assumes "0 \<le> x" "x \<le> y"
  shows "fl x \<le> fl y"
proof (cases "exponent x = exponent y")
  case True
  let ?u = "pow2 (exponent y - 52)"
  have u: "0 < ?u" by (rule pow2_pos)
  from assms have "x / ?u \<le> y / ?u" using u by (simp add: divide_right_mono)
  then have "roundEven (x / ?u) \<le> roundEven (y / ?u)" by (rule roundEven_mono)
  then have "real_of_int (roundEven (x / ?u)) * ?u \<le> real_of_int (roundEven (y / ?u)) * ?u"
    using u by (simp add: mult_right_mono)
  then show ?thesis by (simp add: fl_def True)
next
  case False
  with exponent_mono [OF assms] have lt: "exponent x < exponent y" by simp
  from assms have y: "0 \<le> y" by simp
  from lt exponent_range [of y] have "exponent x < 1023" by simp
  from fl_upper [OF assms(1) this] have "fl x \<le> pow2 (exponent x + 1)" .
  also from lt have "\<dots> \<le> pow2 (exponent y)" by (intro pow2_mono) simp
  also from lt exponent_range [of x] have "- 1022 < exponent y" by simp
  from fl_lower [OF y this] have "pow2 (exponent y) \<le> fl y" .
  finally show ?thesis .
qed


lemma fl_representable:
  assumes "x = real_of_int k * pow2 (exponent x - 52)"
  shows "fl x = x"
proof -
  have "x / pow2 (exponent x - 52) = real_of_int k"
    using assms pow2_pos [of "exponent x - 52"] by (simp add: field_simps)
  then have "fl x = real_of_int k * pow2 (exponent x - 52)"
    by (simp add: fl_def roundEven_of_int)
  with assms show ?thesis by simp
qed

lemma fl_idem:
  assumes "0 \<le> x"
  shows "fl (fl x) = fl x"
proof -
  define e where "e = exponent x"
  define N where "N = roundEven (x / pow2 (e - 52))"
  define r where "r = fl x"
  define e' where "e' = exponent r"
  have r: "r = real_of_int N * pow2 (e - 52)" by (simp add: r_def fl_def N_def e_def)
  have r0: "0 \<le> r" unfolding r_def using assms by (rule fl_nonneg)
  have "\<exists>k. r = real_of_int k * pow2 (e' - 52)"
  proof (cases "e' \<le> e")
    case True
    then have "pow2 (e - e') = real_of_int (2 ^ nat (e - e'))"
      by (simp add: pow2_def power_int_nonneg_exp)
    moreover have "pow2 (e - 52) = pow2 (e - e') * pow2 (e' - 52)"
      using pow2_add [of "e - e'" "e' - 52"] by simp
    ultimately have "r = real_of_int (N * 2 ^ nat (e - e')) * pow2 (e' - 52)"
      by (simp add: r)
    then show ?thesis by blast
  next
    case False
    then have lt: "e < e'" by simp
    from exponent_range [of r] have "e' \<le> 1023" by (simp add: e'_def)
    with lt have "exponent x < 1023" by (simp add: e_def)
    from fl_upper [OF assms this] have up: "r \<le> pow2 (e + 1)" by (simp add: r_def e_def)
    from exponent_range [of x] lt have "- 1022 < e'" by (simp add: e_def)
    with exponent_range [of r] r0 have low: "pow2 e' \<le> r" by (simp add: e'_def)
    have "e' \<le> e + 1"
    proof (rule ccontr)
      assume "\<not> e' \<le> e + 1"
      then have "pow2 (e + 1) < pow2 e'" by (intro pow2_strict) simp
      with up low show False by simp
    qed
    with lt have e': "e' = e + 1" by simp
    with up low have "r = pow2 e'" by simp
    then have "r = real_of_int (2 ^ 52) * pow2 (e' - 52)"
      using pow2_53(2) [of e'] by simp
    then show ?thesis by blast
  qed
  then obtain k where "r = real_of_int k * pow2 (exponent r - 52)" by (auto simp: e'_def)
  then have "fl r = r" by (rule fl_representable)
  then show ?thesis by (simp add: r_def)
qed

lemma fl_fixes: "fl 1 = 1" "fl 100 = 100"
proof -
  show "fl 1 = 1" using fl_eq [of 0 1 "2 ^ 52"] by (simp add: pow2_def)
  show "fl 100 = 100" using fl_eq [of 6 100 "100 * 2 ^ 46"] by (simp add: pow2_def)
qed

text \<open>
  Numbers of at most 53 bits are doubles, and rounding the quotient of a span by the
  milliseconds of a day does not change the day it rounds up to: the quotient is a whole
  number or lies more than \<open>2\<^sup>-\<^sup>2\<^sup>7\<close> above one.
\<close>

lemma fl_dyadic:
  assumes "0 \<le> k" "k < 2 ^ 53" "- 1074 \<le> j" "j \<le> 970"
  shows "fl (real_of_int k * pow2 j) = real_of_int k * pow2 j"
proof -
  define x where "x = real_of_int k * pow2 j"
  define e where "e = exponent x"
  have x0: "0 \<le> x" using assms(1) pow2_pos [of j] by (simp add: x_def)
  have "real_of_int k < real_of_int (2 ^ 53)" using assms(2) by (simp only: of_int_less_iff)
  then have "real_of_int k < 2 ^ 53" by simp
  then have "x < 2 ^ 53 * pow2 j" using pow2_pos [of j] by (simp add: x_def)
  moreover have "pow2 (j + 53) = 2 ^ 53 * pow2 j"
    using pow2_add [of j 53] by (simp add: pow2_def)
  ultimately have up: "x < pow2 (j + 53)" by simp
  have le: "e \<le> j + 52"
  proof (cases "e = - 1022")
    case True
    with assms(3) show ?thesis by simp
  next
    case False
    with exponent_range [of x] have "pow2 e \<le> \<bar>x\<bar>" by (simp add: e_def)
    with x0 up have lt: "pow2 e < pow2 (j + 53)" by simp
    show ?thesis
    proof (rule ccontr)
      assume "\<not> e \<le> j + 52"
      then have "pow2 (j + 53) \<le> pow2 e" by (intro pow2_mono) simp
      with lt show False by simp
    qed
  qed
  then have a: "pow2 (j + 52 - e) = real_of_int (2 ^ nat (j + 52 - e))"
    by (simp add: pow2_def power_int_nonneg_exp)
  have b: "pow2 j = pow2 (j + 52 - e) * pow2 (e - 52)"
    using pow2_add [of "j + 52 - e" "e - 52"] by simp
  have "x = real_of_int k * (pow2 (j + 52 - e) * pow2 (e - 52))"
    unfolding x_def by (subst b) (rule refl)
  then have "x = real_of_int (k * 2 ^ nat (j + 52 - e)) * pow2 (e - 52)"
    unfolding a by simp
  then have "x = real_of_int (k * 2 ^ nat (j + 52 - e)) * pow2 (exponent x - 52)"
    unfolding e_def .
  then have "fl x = x" by (rule fl_representable)
  then show ?thesis by (simp add: x_def)
qed

lemma fl_int: "0 \<le> n \<Longrightarrow> n < 2 ^ 53 \<Longrightarrow> fl (real_of_int n) = real_of_int n"
  using fl_dyadic [of n 0] by (simp add: pow2_def)

lemma ceiling_fl:
  assumes "real_of_int n - 1 + 1 / 2 ^ 27 \<le> q" "q \<le> real_of_int n" "1 \<le> n" "n \<le> 2 ^ 25"
  shows "\<lceil>fl q\<rceil> = n"
proof -
  define k where "k = (n - 1) * 2 ^ 27 + 1"
  define d where "d = real_of_int k * pow2 (- 27)"
  have p: "pow2 (- 27) = 1 / 2 ^ 27" by (simp add: pow2_def power_int_minus field_simps)
  have d: "d = real_of_int n - 1 + 1 / 2 ^ 27" by (simp add: d_def k_def p field_simps)
  have k0: "0 \<le> k" using assms(3) by (simp add: k_def)
  have "(n - 1) * 2 ^ 27 \<le> (2 ^ 25 - 1) * 2 ^ 27" using assms(4) by simp
  then have k1: "k < 2 ^ 53" by (simp add: k_def)
  have fd: "fl d = d" unfolding d_def using k0 k1 by (rule fl_dyadic) simp_all
  have d0: "0 \<le> d" using assms(3) by (simp add: d)
  from assms(1) have "d \<le> q" by (simp add: d)
  with d0 have "fl d \<le> fl q" by (rule fl_mono)
  with fd have low: "real_of_int n - 1 < fl q" by (simp add: d)
  from d0 \<open>d \<le> q\<close> have q0: "0 \<le> q" by simp
  have "n < 2 ^ 53" using assms(4) by simp
  with assms(3) have "fl (real_of_int n) = real_of_int n" by (intro fl_int) simp_all
  with fl_mono [OF q0 assms(2)] have "fl q \<le> real_of_int n" by simp
  with low show ?thesis by (simp add: ceiling_eq_iff)
qed

lemma ceiling_fl_days:
  assumes "0 < x" "x \<le> 2 ^ 25 * msPerDay"
  shows "\<lceil>fl (real_of_int x / real_of_int msPerDay)\<rceil> = \<lceil>real_of_int x / real_of_int msPerDay\<rceil>"
proof -
  define n where "n = \<lceil>real_of_int x / real_of_int msPerDay\<rceil>"
  have M: "msPerDay = 86400000" by (simp add: msPerDay_def)
  have up: "real_of_int x / 86400000 \<le> real_of_int n" by (simp add: n_def M)
  have "real_of_int n - 1 < real_of_int x / 86400000" unfolding n_def M by linarith
  then have "real_of_int ((n - 1) * 86400000) < real_of_int x" by (simp add: field_simps)
  then have "(n - 1) * 86400000 < x" by (simp only: of_int_less_iff)
  then have "(n - 1) * 86400000 + 1 \<le> x" by simp
  then have "real_of_int ((n - 1) * 86400000 + 1) \<le> real_of_int x" by (simp only: of_int_le_iff)
  then have "real_of_int n - 1 + 1 / 86400000 \<le> real_of_int x / 86400000" by (simp add: field_simps)
  moreover have "(1::real) / 2 ^ 27 \<le> 1 / 86400000" by simp
  ultimately have low: "real_of_int n - 1 + 1 / 2 ^ 27 \<le> real_of_int x / 86400000" by linarith
  from assms(1) have "0 < real_of_int x / 86400000" by simp
  then have n1: "1 \<le> n" unfolding n_def M by linarith
  from assms(2) have "real_of_int x \<le> real_of_int (2 ^ 25 * 86400000)"
    unfolding M by (simp only: of_int_le_iff)
  then have "real_of_int x / 86400000 \<le> real_of_int (2 ^ 25)" by simp
  then have n2: "n \<le> 2 ^ 25" unfolding n_def M by (simp only: ceiling_le_iff)
  from ceiling_fl [OF low up n1 n2] show ?thesis by (simp add: n_def M)
qed

subsection \<open>The queries on a host\<close>

lemma monotone_fl: "monotoneRounding fl"
  unfolding monotoneRounding_def using fl_mono fl_idem fl_zero fl_fixes by blast

lemma monotone_exact: "monotoneRounding (\<lambda>x. x)"
  by (simp add: monotoneRounding_def)

lemma host_fields:
  "rounding exact = (\<lambda>x. x)" "dstShift exact = 0"
  "rounding (doubles shift) = fl" "dstShift (doubles shift) = shift"
  by (simp_all add: exact_def doubles_def)

lemma validHost_exact: "validHost exact"
  by (simp add: validHost_def host_fields monotone_exact msPerDay_def)


lemma sumAbs_r_exact: "sumAbs_r (\<lambda>x. x) ts = sumAbs ts"
  by (simp add: sumAbs_r_def sumAbs_def)

lemma addCategory_r_exact: "addCategory_r (\<lambda>x. x) = addCategory"
  by (intro ext) (simp add: addCategory_r_def addCategory_def)

lemma calculatePeriodAnalytics_r_exact:
  "calculatePeriodAnalytics_r (\<lambda>x. x) ts nm d = calculatePeriodAnalytics ts nm d"
  by (simp add: calculatePeriodAnalytics_r_def calculatePeriodAnalytics_def sumAbs_r_exact
      addCategory_r_exact)

lemma daysBetweenOn_exact: "daysBetweenOn exact s e = daysBetween s e"
  by (simp add: daysBetweenOn_def daysBetween_def host_fields)

lemma periodQueryOn_exact: "periodQueryOn exact k P e now = periodQuery k P e now"
  by (cases k)
     (simp_all add: periodQueryOn_def host_fields calculatePeriodAnalytics_r_exact
        daysBetweenOn_exact getWeeklyAnalytics_def getMonthlyAnalytics_def
        getHalfYearlyAnalytics_def getAnnualAnalytics_def windowAnalytics_def Let_def)



lemma analytics_r_fields:
  "totalIncome (calculatePeriodAnalytics_r rnd ts nm d) = sumAbs_r rnd (filter (\<lambda>t. type_t t = income) ts)"
  "totalExpenses (calculatePeriodAnalytics_r rnd ts nm d) = sumAbs_r rnd (filter (\<lambda>t. type_t t = expense) ts)"
  "netAmount (calculatePeriodAnalytics_r rnd ts nm d)
     = rnd (sumAbs_r rnd (filter (\<lambda>t. type_t t = income) ts)
            - sumAbs_r rnd (filter (\<lambda>t. type_t t = expense) ts))"
  "savingsRate (calculatePeriodAnalytics_r rnd ts nm d)
     = (if 0 < totalIncome (calculatePeriodAnalytics_r rnd ts nm d)
        then rnd (rnd (netAmount (calculatePeriodAnalytics_r rnd ts nm d)
                        / totalIncome (calculatePeriodAnalytics_r rnd ts nm d)) * 100)
        else 0)"
  "averageDaily (calculatePeriodAnalytics_r rnd ts nm d)
     = (if d = 0 then None
        else Some (rnd (totalExpenses (calculatePeriodAnalytics_r rnd ts nm d) / real_of_int d)))"
  by (simp_all add: calculatePeriodAnalytics_r_def Let_def)

lemma halfyear_span:
  assumes "h mod 6 = 0"
  shows "getTime (endOfDay (Date_ymd y (h + 6) 0)) - getTime (Date_ymd y h 1)
    = ((if h mod 12 = 0 then (if isLeap (yearOf y + h div 12) then 182 else 181) else 184) - 1)
        * msPerDay + 86399999"
proof -
  note a = half_divmod(1,2) [OF assms] and b = half_divmod(3) [OF assms]
  define Y where "Y = yearOf y + h div 12"
  have s: "Date_ymd y h 1 = \<lparr>year = Y, month = h mod 12, day = 1, msec = 0\<rparr>"
    by (simp add: Date_ymd_first Y_def)
  have e: "Date_ymd y (h + 6) 0 = \<lparr>year = Y, month = h mod 12 + 5,
      day = daysInMonth Y (h mod 12 + 5), msec = 0\<rparr>"
    unfolding Date_ymd_zero a Y_def by simp
  from b show ?thesis
  proof
    assume h0: "h mod 12 = 0"
    have "getTime (endOfDay (Date_ymd y (h + 6) 0)) - getTime (Date_ymd y h 1)
        = ((if isLeap Y then 182 else 181) - 1) * msPerDay + 86399999"
      unfolding s e getTime_endOfDay getTime_first monthStart_def h0
      by (simp add: daysBeforeMonth_table daysInMonth_table algebra_simps)
    then show ?thesis using h0 by (simp add: Y_def)
  next
    assume h6: "h mod 12 = 6"
    have "getTime (endOfDay (Date_ymd y (h + 6) 0)) - getTime (Date_ymd y h 1)
        = (184 - 1) * msPerDay + 86399999"
      unfolding s e getTime_endOfDay getTime_first monthStart_def h6
      by (simp add: daysBeforeMonth_table daysInMonth_table algebra_simps)
    then show ?thesis using h6 by simp
  qed
qed

lemma ceil_span:
  assumes "1 - msPerDay < shift" "shift < msPerDay"
  shows "Math_ceil (real_of_int ((n - 1) * msPerDay + 86399999 + shift) / real_of_int msPerDay)
    = (if 1 < shift then n + 1 else n)"
proof -
  have v: "real_of_int ((n - 1) * msPerDay + 86399999 + shift) / real_of_int msPerDay
        = real_of_int n + real_of_int (shift - 1) / 86400000"
    by (simp add: msPerDay_def field_simps)
  show ?thesis
  proof (cases "1 < shift")
    case True
    with assms have "0 < real_of_int (shift - 1) / 86400000" "real_of_int (shift - 1) / 86400000 < 1"
      by (simp_all add: msPerDay_def)
    then show ?thesis unfolding Math_ceil_def v using True by (simp add: ceiling_eq_iff)
  next
    case False
    with assms have "- 1 < real_of_int (shift - 1) / 86400000" "real_of_int (shift - 1) / 86400000 \<le> 0"
      by (simp_all add: msPerDay_def)
    then show ?thesis unfolding Math_ceil_def v using False by (simp add: ceiling_eq_iff)
  qed
qed

lemma halfyear_days_on:
  assumes "h mod 6 = 0" "rounding H = fl \<or> rounding H = (\<lambda>x. x)"
    and "1 - msPerDay < dstShift H" "dstShift H < msPerDay"
  shows "daysBetweenOn H (Date_ymd y h 1) (endOfDay (Date_ymd y (h + 6) 0))
    = (if h mod 12 = 0 then (if isLeap (yearOf y + h div 12) then 182 else 181) else 184)
      + (if 1 < dstShift H then 1 else 0)"
proof -
  define D :: int
    where "D = (if h mod 12 = 0 then (if isLeap (yearOf y + h div 12) then 182 else 181) else 184)"
  define x where "x = (D - 1) * msPerDay + 86399999 + dstShift H"
  have D: "181 \<le> D" "D \<le> 184" by (simp_all add: D_def)
  have span: "getTime (endOfDay (Date_ymd y (h + 6) 0)) - getTime (Date_ymd y h 1) + dstShift H = x"
    unfolding halfyear_span [OF assms(1)] x_def D_def ..
  from D assms(3,4) have x: "0 < x" "x \<le> 2 ^ 25 * msPerDay" by (simp_all add: x_def msPerDay_def)
  have "Math_ceil (rounding H (real_of_int x / real_of_int msPerDay))
      = Math_ceil (real_of_int x / real_of_int msPerDay)"
    using assms(2) ceiling_fl_days [OF x] by (auto simp: Math_ceil_def)
  also have "\<dots> = (if 1 < dstShift H then D + 1 else D)"
    unfolding x_def by (rule ceil_span [OF assms(3,4)])
  finally show ?thesis unfolding daysBetweenOn_def span D_def by simp
qed



text \<open>
  On a clock reading, in double as in exact arithmetic, the day count is that of the
  calendar, but for the half-year on a host whose zone offset grows over the half (the
  clocks go back): there the span is longer than the half and the count is one more.
\<close>

lemma periodDays_calendar:
  assumes "validNow now" "rounding H = fl \<or> rounding H = (\<lambda>x. x)"
    and "1 - msPerDay < dstShift H" "dstShift H < msPerDay"
  shows "periodDaysOn H k now
    = daysInPeriod k now + (if k = HalfYearly \<and> 1 < dstShift H then 1 else 0)"
proof -
  from assms have m: "0 \<le> month now" "month now \<le> 11" and y: "yearOf (year now) = year now"
    by (auto simp: validNow_def validDate_def yearOf_def)
  show ?thesis
  proof (cases k)
    case Weekly
    then show ?thesis by simp
  next
    case Monthly
    then show ?thesis using m y by (simp add: day_endOfDay Date_ymd_zero)
  next
    case HalfYearly
    from m have c: "month now div 6 * 6 = (if month now < 6 then 0 else 6)" by (rule half_start)
    have "(month now div 6 * 6) mod 6 = 0" by simp
    from halfyear_days_on [OF this assms(2,3,4)] HalfYearly show ?thesis
      by (auto simp: c y daysInMonth_table)
  next
    case Yearly
    then show ?thesis by (simp add: js_rem_4)
  qed
qed

subsection \<open>Rates and daily averages\<close>






lemma march_days: "periodDaysOn H Monthly mid_march = 31"
  by (simp add: day_endOfDay Date_ymd_zero yearOf_def daysInMonth_table mid_march_fields)






subsection \<open>Category analysis\<close>

lemma map_get_mem: "map_get m k = Some v \<Longrightarrow> (k, v) \<in> set m"
  by (induction m) (auto split: if_splits)

lemma keys_map_set: "fst ` set (map_set k v m) = insert k (fst ` set m)"
proof (induction m)
  case Nil
  show ?case by simp
next
  case (Cons p m)
  obtain k' v' where p: "p = (k', v')" by (cases p)
  show ?case
  proof (cases "k' = k")
    case True
    then show ?thesis by (simp add: p)
  next
    case False
    then have "map_set k v (p # m) = p # map_set k v m" by (simp add: p)
    then show ?thesis using Cons by (simp add: insert_commute)
  qed
qed

lemma set_map_set: "set (map_set k v m) \<subseteq> insert (k, v) (set m)"
  by (induction m) (auto split: if_splits)

lemma distinct_map_set: "distinct (map fst m) \<Longrightarrow> distinct (map fst (map_set k v m))"
proof (induction m)
  case Nil
  show ?case by simp
next
  case (Cons p m)
  have "fst ` set (map_set k v m) = insert k (fst ` set m)" by (rule keys_map_set)
  with Cons show ?case by (cases p) auto
qed

lemma sorted_insert_js:
  "sorted_wrt (\<lambda>a b. amount_s b \<le> amount_s a) xs
   \<Longrightarrow> sorted_wrt (\<lambda>a b. amount_s b \<le> amount_s a) (insert_js byAmountDesc x xs)"
  by (induction xs) (auto simp: byAmountDesc_def set_insert_js)

lemma sorted_sort_js:
  "sorted_wrt (\<lambda>a b. amount_s b \<le> amount_s a) (sort_js byAmountDesc xs)"
  by (induction xs) (auto simp: sort_js_def sorted_insert_js)

lemma addCategory_r_map_set:
  "\<exists>a c. addCategory_r rnd m t = map_set (category t) (rnd (a + \<bar>amount t\<bar>), c + 1) m"
  unfolding addCategory_r_def
  by (cases "case map_get m (category t) of None \<Rightarrow> (0, 0) | Some ex \<Rightarrow> ex") auto

lemma keys_addCategory_r:
  "fst ` set (addCategory_r rnd m t) = insert (category t) (fst ` set m)"
  using addCategory_r_map_set [of rnd m t] keys_map_set by metis

lemma keys_categoryMap_r:
  "fst ` set (foldl (addCategory_r rnd) m ts) = fst ` set m \<union> category ` set ts"
proof (induction ts arbitrary: m)
  case Nil
  show ?case by simp
next
  case (Cons t ts)
  show ?case using Cons [of "addCategory_r rnd m t"] keys_addCategory_r [of rnd m t]
    by (simp del: image_insert) blast
qed

text \<open>
  While the engine adds the expenses up, no category amount exceeds the running total:
  both grow by the same rounded additions, and the rounding is monotone.
\<close>

lemma bounded_addCategory_r:
  assumes r: "monotoneRounding rnd" and T: "0 \<le> T" "rnd T = T"
    and m: "\<forall>e \<in> set m. 0 \<le> fst (snd e) \<and> fst (snd e) \<le> T"
  shows "\<forall>e \<in> set (addCategory_r rnd m t). 0 \<le> fst (snd e) \<and> fst (snd e) \<le> rnd (T + \<bar>amount t\<bar>)"
proof
  fix e assume e: "e \<in> set (addCategory_r rnd m t)"
  from r have mono: "\<And>x y. 0 \<le> x \<Longrightarrow> x \<le> y \<Longrightarrow> rnd x \<le> rnd y" and z: "rnd 0 = 0"
    by (simp_all add: monotoneRounding_def)
  have up: "T \<le> rnd (T + \<bar>amount t\<bar>)" using mono [of T "T + \<bar>amount t\<bar>"] T by simp
  have new: "0 \<le> rnd (a + \<bar>amount t\<bar>) \<and> rnd (a + \<bar>amount t\<bar>) \<le> rnd (T + \<bar>amount t\<bar>)"
    if "0 \<le> a" "a \<le> T" for a
    using mono [of 0 "a + \<bar>amount t\<bar>"] mono [of "a + \<bar>amount t\<bar>" "T + \<bar>amount t\<bar>"] that z
    by simp
  show "0 \<le> fst (snd e) \<and> fst (snd e) \<le> rnd (T + \<bar>amount t\<bar>)"
  proof (cases "map_get m (category t)")
    case None
    with e have "e \<in> insert (category t, rnd (0 + \<bar>amount t\<bar>), 0 + 1) (set m)"
      using set_map_set [of "category t" "(rnd (0 + \<bar>amount t\<bar>), 0 + 1)" m]
      by (auto simp: addCategory_r_def)
    with m up new [of 0] T(1) show ?thesis by auto
  next
    case (Some ex)
    obtain a c where ex: "ex = (a, c)" by (cases ex)
    from Some ex have "(category t, a, c) \<in> set m" by (auto dest: map_get_mem)
    with m have a: "0 \<le> a" "a \<le> T" by force+
    from e Some ex have "e \<in> insert (category t, rnd (a + \<bar>amount t\<bar>), c + 1) (set m)"
      using set_map_set [of "category t" "(rnd (a + \<bar>amount t\<bar>), c + 1)" m]
      by (auto simp: addCategory_r_def)
    with m up new [OF a] show ?thesis by auto
  qed
qed

lemma bounded_categoryMap_r:
  assumes r: "monotoneRounding rnd"
  shows "0 \<le> T \<Longrightarrow> rnd T = T \<Longrightarrow> \<forall>e \<in> set m. 0 \<le> fst (snd e) \<and> fst (snd e) \<le> T
    \<Longrightarrow> \<forall>e \<in> set (foldl (addCategory_r rnd) m ts).
          0 \<le> fst (snd e) \<and> fst (snd e) \<le> foldl (\<lambda>sum t. rnd (sum + \<bar>amount t\<bar>)) T ts"
proof (induction ts arbitrary: T m)
  case Nil
  then show ?case by simp
next
  case (Cons t ts)
  from r have mono: "\<And>x y. 0 \<le> x \<Longrightarrow> x \<le> y \<Longrightarrow> rnd x \<le> rnd y" and z: "rnd 0 = 0"
    and idem: "\<And>x. 0 \<le> x \<Longrightarrow> rnd (rnd x) = rnd x"
    by (simp_all add: monotoneRounding_def)
  have a: "0 \<le> rnd (T + \<bar>amount t\<bar>)" using mono [of 0 "T + \<bar>amount t\<bar>"] z Cons.prems(1) by simp
  have b: "rnd (rnd (T + \<bar>amount t\<bar>)) = rnd (T + \<bar>amount t\<bar>)"
    using idem [of "T + \<bar>amount t\<bar>"] Cons.prems(1) by simp
  have c: "\<forall>e \<in> set (addCategory_r rnd m t).
      0 \<le> fst (snd e) \<and> fst (snd e) \<le> rnd (T + \<bar>amount t\<bar>)"
    using r Cons.prems by (rule bounded_addCategory_r)
  from Cons.IH [OF a b c] show ?case by simp
qed

lemma categoryMap_r_facts:
  assumes "monotoneRounding rnd" "e \<in> set (foldl (addCategory_r rnd) [] ts)"
  shows "0 \<le> fst (snd e)" "fst (snd e) \<le> sumAbs_r rnd ts" "fst e \<in> category ` set ts"
proof -
  from assms(1) have z: "rnd 0 = 0" by (simp add: monotoneRounding_def)
  from bounded_categoryMap_r [OF assms(1), of 0 "[]" ts] z assms(2)
  show "0 \<le> fst (snd e)" "fst (snd e) \<le> sumAbs_r rnd ts"
    by (simp_all add: sumAbs_r_def)
  from keys_categoryMap_r [of rnd "[]" ts] assms(2) show "fst e \<in> category ` set ts"
    by (metis Un_iff empty_iff image_empty imageI list.set(1))
qed

lemma percentage_r_range:
  assumes r: "monotoneRounding rnd" and a: "0 \<le> a" "a \<le> X" and X: "0 < X"
  shows "0 \<le> rnd (rnd (a / X) * 100)" "rnd (rnd (a / X) * 100) \<le> 100"
proof -
  from r have mono: "\<And>x y. 0 \<le> x \<Longrightarrow> x \<le> y \<Longrightarrow> rnd x \<le> rnd y"
    and v: "rnd 0 = 0" "rnd 1 = 1" "rnd 100 = 100"
    by (simp_all add: monotoneRounding_def)
  from a X have q: "0 \<le> a / X" "a / X \<le> 1" by simp_all
  from mono [of 0 "a / X"] mono [of "a / X" 1] q v
  have p: "0 \<le> rnd (a / X)" "rnd (a / X) \<le> 1" by simp_all
  then have "0 \<le> rnd (a / X) * 100" "rnd (a / X) * 100 \<le> 100" by simp_all
  with mono [of 0 "rnd (a / X) * 100"] mono [of "rnd (a / X) * 100" 100] v
  show "0 \<le> rnd (rnd (a / X) * 100)" "rnd (rnd (a / X) * 100) \<le> 100" by simp_all
qed

lemma topCategories_r_entries:
  "topCategories (calculatePeriodAnalytics_r rnd ts nm d)
     = take 5 (sort_js byAmountDesc
         (map (\<lambda>(cat, a, c). \<lparr>category_s = cat, amount_s = a, count_s = c,
                 percentage =
                   (if 0 < sumAbs_r rnd (filter (\<lambda>t. type_t t = expense) ts)
                    then rnd (rnd (a / sumAbs_r rnd (filter (\<lambda>t. type_t t = expense) ts)) * 100)
                    else 0)\<rparr>)
            (foldl (addCategory_r rnd) [] (filter (\<lambda>t. type_t t = expense) ts))))"
  by (simp add: calculatePeriodAnalytics_r_def Let_def)

lemma topCategories_r_ok:
  assumes r: "monotoneRounding rnd"
  shows "topCategoriesOf (calculatePeriodAnalytics_r rnd ts nm d) ts"
proof -
  define E where "E = filter (\<lambda>t. type_t t = expense) ts"
  define X where "X = sumAbs_r rnd E"
  define cm where "cm = foldl (addCategory_r rnd) [] E"
  define mk where "mk = (\<lambda>(cat :: string, a :: real, c :: nat).
     \<lparr>category_s = cat, amount_s = a, count_s = c,
      percentage = (if 0 < X then rnd (rnd (a / X) * 100) else 0)\<rparr>)"
  define entries where "entries = map mk cm"
  define tc where "tc = take 5 (sort_js byAmountDesc entries)"
  have tc: "topCategories (calculatePeriodAnalytics_r rnd ts nm d) = tc"
    unfolding topCategories_r_entries tc_def entries_def mk_def cm_def X_def E_def by (rule refl)
  have sub: "set tc \<subseteq> set entries"
    unfolding tc_def using set_take_subset [of 5 "sort_js byAmountDesc entries"]
    by (simp add: set_sort_js)
  have mk_fields: "category_s (mk e) = fst e" "amount_s (mk e) = fst (snd e)"
    "percentage (mk e) = (if 0 < X then rnd (rnd (fst (snd e) / X) * 100) else 0)" for e
    by (cases e; simp add: mk_def)+
  have pct: "0 \<le> percentage c \<and> percentage c \<le> 100" if "c \<in> set entries" for c
  proof -
    from that obtain e where e: "e \<in> set cm" "c = mk e" by (auto simp: entries_def)
    from categoryMap_r_facts(1,2) [OF r e(1) [unfolded cm_def]]
    have b: "0 \<le> fst (snd e)" "fst (snd e) \<le> X" by (simp_all add: X_def)
    show ?thesis
    proof (cases "0 < X")
      case True
      from percentage_r_range [OF r b True] True show ?thesis by (simp add: e(2) mk_fields)
    next
      case False
      then show ?thesis by (simp add: e(2) mk_fields)
    qed
  qed
  have len: "length tc \<le> 5" by (simp add: tc_def)
  have cats: "\<forall>c \<in> set tc. \<exists>t \<in> set ts. type_t t = expense \<and> category t = category_s c"
  proof
    fix c assume "c \<in> set tc"
    with sub obtain e where e: "e \<in> set cm" "c = mk e" by (auto simp: entries_def)
    from categoryMap_r_facts(3) [OF r e(1) [unfolded cm_def]]
    show "\<exists>t \<in> set ts. type_t t = expense \<and> category t = category_s c"
      by (auto simp: E_def e(2) mk_fields)
  qed
  have sorted: "sorted_wrt (\<lambda>a b. amount_s b \<le> amount_s a) tc"
    unfolding tc_def by (intro sorted_wrt_take sorted_sort_js)
  have pcts: "\<forall>c \<in> set tc. 0 \<le> percentage c \<and> percentage c \<le> 100"
    using sub pct by blast
  show ?thesis
    unfolding topCategoriesOf_def tc using len cats sorted pcts by simp
qed

lemma topCategoriesOf_set:
  "set W = set W' \<Longrightarrow> topCategoriesOf s W = topCategoriesOf s W'"
  by (simp add: topCategoriesOf_def)

text \<open>
  In exact arithmetic the category amounts add up to the expenses, and the percentages of
  all categories to 100.
\<close>

lemma sum_map_set:
  fixes m :: "('k \<times> real \<times> 'c) list"
  shows "(\<Sum>e\<leftarrow>map_set k (a, c) m. fst (snd e))
     = (\<Sum>e\<leftarrow>m. fst (snd e)) - (case map_get m k of None \<Rightarrow> 0 | Some ex \<Rightarrow> fst ex) + a"
  by (induction m) auto

lemma sum_addCategory:
  "(\<Sum>e\<leftarrow>addCategory m t. fst (snd e)) = (\<Sum>e\<leftarrow>m. fst (snd e)) + \<bar>amount t\<bar>"
  by (cases "map_get m (category t)") (auto simp: addCategory_def sum_map_set)

lemma addCategory_map_set:
  "\<exists>a c. addCategory m t = map_set (category t) (a + \<bar>amount t\<bar>, c + 1) m"
  unfolding addCategory_def
  by (cases "case map_get m (category t) of None \<Rightarrow> (0, 0) | Some ex \<Rightarrow> ex") auto

lemma distinct_addCategory: "distinct (map fst m) \<Longrightarrow> distinct (map fst (addCategory m t))"
  using addCategory_map_set [of m t] distinct_map_set by metis

lemma categoryMap_invariant:
  "(\<Sum>e\<leftarrow>foldl addCategory m ts. fst (snd e)) = (\<Sum>e\<leftarrow>m. fst (snd e)) + (\<Sum>t\<leftarrow>ts. \<bar>amount t\<bar>)
   \<and> (distinct (map fst m) \<longrightarrow> distinct (map fst (foldl addCategory m ts)))"
proof (induction ts arbitrary: m)
  case Nil
  show ?case by simp
next
  case (Cons t ts)
  show ?case
    using Cons [of "addCategory m t"] sum_addCategory [of m t] distinct_addCategory [of m t]
    by simp
qed

lemma categoryMap_facts:
  "(\<Sum>e\<leftarrow>foldl addCategory [] ts. fst (snd e)) = sumAbs ts"
  "distinct (map fst (foldl addCategory [] ts))"
  using categoryMap_invariant [of "[]" ts] by (auto simp: sumAbs_sum_list)

lemma sum_list_take_le:
  fixes f :: "'a \<Rightarrow> real"
  assumes "\<forall>x \<in> set xs. 0 \<le> f x"
  shows "(\<Sum>x\<leftarrow>take n xs. f x) \<le> (\<Sum>x\<leftarrow>xs. f x)"
proof -
  have "(\<Sum>x\<leftarrow>xs. f x) = (\<Sum>x\<leftarrow>take n xs. f x) + (\<Sum>x\<leftarrow>drop n xs. f x)"
    by (metis append_take_drop_id map_append sum_list_append)
  moreover have "0 \<le> (\<Sum>x\<leftarrow>drop n xs. f x)"
  proof (rule sum_list_nonneg)
    fix y assume "y \<in> set (map f (drop n xs))"
    then obtain x where "x \<in> set (drop n xs)" "y = f x" by auto
    with assms show "0 \<le> y" by (auto dest: in_set_dropD)
  qed
  ultimately show ?thesis by simp
qed

lemma sum_percentages:
  fixes X :: real
  shows "(\<Sum>e\<leftarrow>m. fst (snd e) / X * 100) = (\<Sum>e\<leftarrow>m. fst (snd e)) / X * 100"
  by (induction m) (auto simp: algebra_simps add_divide_distrib)

lemma percentages_exact: "percentagesAddUp (calculatePeriodAnalytics_r (\<lambda>x. x) ts nm d) ts"
proof -
  define E where "E = filter (\<lambda>t. type_t t = expense) ts"
  define X where "X = sumAbs_r (\<lambda>x. x) E"
  define cm where "cm = foldl (addCategory_r (\<lambda>x. x)) [] E"
  define mk where "mk = (\<lambda>(cat :: string, a :: real, c :: nat).
     \<lparr>category_s = cat, amount_s = a, count_s = c,
      percentage = (if 0 < X then a / X * 100 else 0)\<rparr>)"
  define entries where "entries = map mk cm"
  define tc where "tc = take 5 (sort_js byAmountDesc entries)"
  have tc: "topCategories (calculatePeriodAnalytics_r (\<lambda>x. x) ts nm d) = tc"
    unfolding topCategories_r_entries tc_def entries_def mk_def cm_def X_def E_def by (rule refl)
  have X: "X = sumAbs E" by (simp add: X_def sumAbs_r_exact)
  have cm: "cm = foldl addCategory [] E" by (simp add: cm_def addCategory_r_exact)
  have total: "(\<Sum>e\<leftarrow>cm. fst (snd e)) = X" and dist: "distinct (map fst cm)"
    unfolding cm X by (rule categoryMap_facts)+
  have keys: "fst ` set cm = category ` set E"
    unfolding cm_def using keys_categoryMap_r [of "\<lambda>x. x" "[]" E] by simp
  have mk_fields: "percentage (mk e) = (if 0 < X then fst (snd e) / X * 100 else 0)" for e
    by (cases e) (simp add: mk_def)
  have pct: "0 \<le> percentage c" if "c \<in> set entries" for c
  proof -
    from that obtain e where e: "e \<in> set cm" "c = mk e" by (auto simp: entries_def)
    from categoryMap_r_facts(1) [OF monotone_exact e(1) [unfolded cm_def]]
    show ?thesis by (simp add: e(2) mk_fields)
  qed
  have all: "(\<Sum>c\<leftarrow>sort_js byAmountDesc entries. percentage c) = (if 0 < X then 100 else 0)"
  proof -
    have "(\<Sum>c\<leftarrow>sort_js byAmountDesc entries. percentage c) = (\<Sum>c\<leftarrow>entries. percentage c)"
      by (rule sum_list_map_mset) (simp add: mset_sort_js)
    also have "\<dots> = (\<Sum>e\<leftarrow>cm. if 0 < X then fst (snd e) / X * 100 else 0)"
      by (simp add: entries_def comp_def mk_fields)
    also have "\<dots> = (if 0 < X then 100 else 0)"
      using sum_percentages [of X cm] by (auto simp: total)
    finally show ?thesis .
  qed
  have "(\<Sum>c\<leftarrow>tc. percentage c) \<le> (\<Sum>c\<leftarrow>sort_js byAmountDesc entries. percentage c)"
    unfolding tc_def by (rule sum_list_take_le) (simp add: set_sort_js pct)
  with all have sum_le: "(\<Sum>c\<leftarrow>tc. percentage c) \<le> 100" by (auto split: if_splits)
  have full: "(\<Sum>c\<leftarrow>tc. percentage c) = 100"
    if "0 < X" "length (remdups (map category E)) \<le> 5"
  proof -
    have "length cm = card (fst ` set cm)"
      using dist by (metis distinct_card length_map set_map)
    also have "\<dots> = length (remdups (map category E))"
      by (simp add: keys length_remdups_card_conv)
    finally have "length (sort_js byAmountDesc entries) \<le> 5"
      using that(2) by (simp add: length_sort_js entries_def)
    then have "tc = sort_js byAmountDesc entries" by (simp add: tc_def)
    with all that(1) show ?thesis by simp
  qed
  show ?thesis
    unfolding percentagesAddUp_def tc analytics_r_fields
    using sum_le full by (simp add: X_def E_def)
qed

lemma percentagesAddUp_set:
  "set W = set W' \<Longrightarrow> percentagesAddUp s W = percentagesAddUp s W'"
proof -
  assume s: "set W = set W'"
  then have "set (map category (filter (\<lambda>t. type_t t = expense) W))
      = set (map category (filter (\<lambda>t. type_t t = expense) W'))" by auto
  then have "length (remdups (map category (filter (\<lambda>t. type_t t = expense) W)))
      = length (remdups (map category (filter (\<lambda>t. type_t t = expense) W')))"
    by (simp only: length_remdups_card_conv)
  then show ?thesis by (simp add: percentagesAddUp_def)
qed

lemma window_set:
  "set (getTransactionsInPeriod P (new_AnalyticsEngine P txs)
          (fst (periodWindow k now)) (snd (periodWindow k now))) = set (windowOf k P now txs)"
  by (simp add: engine_window windowOf_def set_sort_js)

subsection \<open>Categories of the sample data\<close>

lemma fl_samples:
  "fl 2 = 2" "fl 9 = 9" "fl 11 = 11"
  "fl (150119987579016525 / 4503599627370496) = 2345624805922133 / 70368744177664"
  "fl (9 / 11) = 7369526662969903 / 9007199254740992"
  "fl (184238166574247575 / 2251799813685248) = 5757442705445237 / 70368744177664"
  "fl (2 / 11) = 3275345183542179 / 18014398509481984"
  "fl (81883629588554475 / 4503599627370496) = 5117726849284655 / 281474976710656"
proof -
  show "fl 2 = 2" using fl_eq [of 1 2 "2 ^ 52"] by (simp add: pow2_def)
  show "fl 9 = 9" using fl_eq [of 3 9 "9 * 2 ^ 49"] by (simp add: pow2_def)
  show "fl 11 = 11" using fl_eq [of 3 11 "11 * 2 ^ 49"] by (simp add: pow2_def)
  show "fl (150119987579016525 / 4503599627370496) = 2345624805922133 / 70368744177664"
    using fl_eq [of 5 "150119987579016525 / 4503599627370496" 4691249611844266]
    by (simp add: pow2_def)
  show "fl (9 / 11) = 7369526662969903 / 9007199254740992"
    using fl_eq [of "- 1" "9 / 11" 7369526662969903] by (simp add: pow2_def)
  show "fl (184238166574247575 / 2251799813685248) = 5757442705445237 / 70368744177664"
    using fl_eq [of 6 "184238166574247575 / 2251799813685248" 5757442705445237]
    by (simp add: pow2_def)
  show "fl (2 / 11) = 3275345183542179 / 18014398509481984"
    using fl_eq [of "- 3" "2 / 11" 6550690367084358] by (simp add: pow2_def)
  show "fl (81883629588554475 / 4503599627370496) = 5117726849284655 / 281474976710656"
    using fl_eq [of 4 "81883629588554475 / 4503599627370496" 5117726849284655]
    by (simp add: pow2_def)
qed

lemma thirds_fields:
  "date (third c) = ''2024-03-05''" "type_t (third c) = expense" "amount (third c) = 10"
  "category (third c) = c"
  "date (priced c a) = ''2024-03-05''" "type_t (priced c a) = expense" "amount (priced c a) = a"
  "category (priced c a) = c"
  by (simp_all add: third_def priced_def)

lemma thirds_engine:
  "new_AnalyticsEngine isoDates thirds = \<lparr>transactions = [third ''A'', third ''B'', third ''C'']\<rparr>"
  "new_AnalyticsEngine isoDates uneven = \<lparr>transactions = [priced ''A'' 9, priced ''B'' 2]\<rparr>"
  by (simp_all add: new_AnalyticsEngine_def thirds_def uneven_def sort_js_def byDateDesc_def
      thirds_fields sample_dates)

lemma thirds_window:
  "getTransactionsInPeriod isoDates \<lparr>transactions = [third ''A'', third ''B'', third ''C'']\<rparr>
     (Date_ymd 2024 2 1) (endOfDay (Date_ymd 2024 3 0)) = [third ''A'', third ''B'', third ''C'']"
  "getTransactionsInPeriod isoDates \<lparr>transactions = [priced ''A'' 9, priced ''B'' 2]\<rparr>
     (Date_ymd 2024 2 1) (endOfDay (Date_ymd 2024 3 0)) = [priced ''A'' 9, priced ''B'' 2]"
  by (simp_all add: getTransactionsInPeriod_def thirds_fields sample_dates getTime_Date years
      daysBeforeMonth_table daysInMonth_table Date_ymd_first Date_ymd_zero yearOf_def endOfDay_Date)

lemma thirds_windowOf: "windowOf Monthly isoDates mid_march thirds = thirds"
  by (simp add: windowOf_def inWindow_def mid_march_fields thirds_def thirds_fields sample_dates
      getTime_Date years daysBeforeMonth_table daysInMonth_table Date_ymd_first Date_ymd_zero
      yearOf_def endOfDay_Date)

lemma thirds_totals:
  "sumAbs_r fl [third ''A'', third ''B'', third ''C''] = 30"
  "sumAbs_r (\<lambda>x. x) [third ''A'', third ''B'', third ''C''] = 30"
  "sumAbs_r fl [priced ''A'' 9, priced ''B'' 2] = 11"
  by (simp_all add: sumAbs_r_def thirds_fields fl_values fl_samples)

lemma thirds_categories:
  "topCategories (calculatePeriodAnalytics_r fl [third ''A'', third ''B'', third ''C''] nm d)
     = [\<lparr>category_s = ''A'', amount_s = 10, count_s = 1,
          percentage = 2345624805922133 / 70368744177664\<rparr>,
        \<lparr>category_s = ''B'', amount_s = 10, count_s = 1,
          percentage = 2345624805922133 / 70368744177664\<rparr>,
        \<lparr>category_s = ''C'', amount_s = 10, count_s = 1,
          percentage = 2345624805922133 / 70368744177664\<rparr>]"
  unfolding topCategories_r_entries
  by (simp add: thirds_fields thirds_totals addCategory_r_def sort_js_def byAmountDesc_def
      fl_values fl_samples)

lemma uneven_categories:
  "topCategories (calculatePeriodAnalytics_r fl [priced ''A'' 9, priced ''B'' 2] nm d)
     = [\<lparr>category_s = ''A'', amount_s = 9, count_s = 1,
          percentage = 5757442705445237 / 70368744177664\<rparr>,
        \<lparr>category_s = ''B'', amount_s = 2, count_s = 1,
          percentage = 5117726849284655 / 281474976710656\<rparr>]"
  unfolding topCategories_r_entries
  by (simp add: thirds_fields thirds_totals addCategory_r_def sort_js_def byAmountDesc_def
      fl_values fl_samples)

lemma thirds_monthly:
  "periodQueryOn H Monthly isoDates (new_AnalyticsEngine isoDates thirds) mid_march
     = calculatePeriodAnalytics_r (rounding H) [third ''A'', third ''B'', third ''C'']
         ''This Month'' 31"
  "periodQueryOn H Monthly isoDates (new_AnalyticsEngine isoDates uneven) mid_march
     = calculatePeriodAnalytics_r (rounding H) [priced ''A'' 9, priced ''B'' 2] ''This Month'' 31"
  unfolding periodQueryOn_def march_days thirds_engine
  by (simp_all add: mid_march_fields thirds_window)

lemma thirds_expenses:
  "totalExpenses (periodQueryOn (doubles s) Monthly isoDates
     (new_AnalyticsEngine isoDates thirds) mid_march) = 30"
  "totalExpenses (periodQueryOn exact Monthly isoDates
     (new_AnalyticsEngine isoDates thirds) mid_march) = 30"
  unfolding thirds_monthly analytics_r_fields
  by (simp_all add: host_fields thirds_fields thirds_totals)

lemma thirds_on_doubles:
  "topCategories (periodQueryOn (doubles s) Monthly isoDates
     (new_AnalyticsEngine isoDates thirds) mid_march)
     = [\<lparr>category_s = ''A'', amount_s = 10, count_s = 1,
          percentage = 2345624805922133 / 70368744177664\<rparr>,
        \<lparr>category_s = ''B'', amount_s = 10, count_s = 1,
          percentage = 2345624805922133 / 70368744177664\<rparr>,
        \<lparr>category_s = ''C'', amount_s = 10, count_s = 1,
          percentage = 2345624805922133 / 70368744177664\<rparr>]"
  "topCategories (periodQueryOn (doubles s) Monthly isoDates
     (new_AnalyticsEngine isoDates uneven) mid_march)
     = [\<lparr>category_s = ''A'', amount_s = 9, count_s = 1,
          percentage = 5757442705445237 / 70368744177664\<rparr>,
        \<lparr>category_s = ''B'', amount_s = 2, count_s = 1,
          percentage = 5117726849284655 / 281474976710656\<rparr>]"
  unfolding thirds_monthly by (simp_all add: host_fields thirds_categories uneven_categories)

subsection \<open>The percentages of the top categories\<close>

text \<open>
  Claim C4 expects the percentages of the returned entries to sum to at most 100, and to
  100 when no category is cut and the expenses are positive. In double arithmetic neither
  holds. Two expenses of 9 and 2 in two categories get the percentages 81.81818181818183
  and 18.181818181818183, whose sum exceeds 100; three expenses of 10 in three categories
  get 33.33333333333333 each, whose sum is below 100.
\<close>

theorem percentages_sum_counterexample:
  "map percentage (topCategories
      (periodQueryOn (doubles 0) Monthly isoDates (new_AnalyticsEngine isoDates uneven) mid_march))
     = [5757442705445237 / 70368744177664, 5117726849284655 / 281474976710656]
   \<and> 100 < sum_list (map percentage (topCategories
      (periodQueryOn (doubles 0) Monthly isoDates (new_AnalyticsEngine isoDates uneven) mid_march)))
   \<and> windowOf Monthly isoDates mid_march thirds = thirds
   \<and> map category thirds = [''A'', ''B'', ''C'']
   \<and> totalExpenses
      (periodQueryOn (doubles 0) Monthly isoDates (new_AnalyticsEngine isoDates thirds) mid_march)
     = 30
   \<and> map percentage (topCategories
      (periodQueryOn (doubles 0) Monthly isoDates (new_AnalyticsEngine isoDates thirds) mid_march))
     = [2345624805922133 / 70368744177664, 2345624805922133 / 70368744177664,
        2345624805922133 / 70368744177664]
   \<and> sum_list (map percentage (topCategories
      (periodQueryOn (doubles 0) Monthly isoDates (new_AnalyticsEngine isoDates thirds) mid_march)))
     < 100"
proof -
  have "map category thirds = [''A'', ''B'', ''C'']" by (simp add: thirds_def thirds_fields)
  then show ?thesis by (simp add: thirds_on_doubles thirds_expenses thirds_windowOf)
qed

text \<open>
  Claim C4, as amended. For every transaction list and every period query, on every host
  whose rounding is monotone and keeps 0, 1 and 100 (on doubles as in exact arithmetic),
  topCategories has at most 5 entries, each for a category of an expense transaction of
  the window, in descending order of amount, each with a percentage between 0 and 100. In
  exact arithmetic, where the queries are the four queries of the engine, the percentages
  sum to at most 100, and to exactly 100 when the expenses are positive and the window has
  at most 5 expense categories (none is cut); on doubles the sum can miss 100 on either
  side.
\<close>

theorem period_topCategories:
  "monotoneRounding (rounding H) \<Longrightarrow>
     topCategoriesOf (periodQueryOn H k P (new_AnalyticsEngine P txs) now) (windowOf k P now txs)
     \<and> percentagesAddUp (periodQueryOn exact k P (new_AnalyticsEngine P txs) now)
         (windowOf k P now txs)
     \<and> periodQueryOn exact k P (new_AnalyticsEngine P txs) now
         = periodQuery k P (new_AnalyticsEngine P txs) now"
proof -
  assume r: "monotoneRounding (rounding H)"
  have a: "topCategoriesOf (periodQueryOn H k P (new_AnalyticsEngine P txs) now) (windowOf k P now txs)"
    unfolding periodQueryOn_def topCategoriesOf_set [OF window_set [symmetric]]
    using r by (rule topCategories_r_ok)
  have b: "percentagesAddUp (periodQueryOn exact k P (new_AnalyticsEngine P txs) now)
      (windowOf k P now txs)"
    unfolding periodQueryOn_def percentagesAddUp_set [OF window_set [symmetric]]
    by (simp add: host_fields percentages_exact)
  from a b periodQueryOn_exact show ?thesis by blast
qed

theorem period_topCategories_witness:
  "monotoneRounding (rounding (doubles 0))
   \<and> topCategoriesOf
        (periodQueryOn (doubles 0) Monthly isoDates (new_AnalyticsEngine isoDates thirds) mid_march)
        (windowOf Monthly isoDates mid_march thirds)
   \<and> topCategories
        (periodQueryOn (doubles 0) Monthly isoDates (new_AnalyticsEngine isoDates thirds) mid_march)
       = [\<lparr>category_s = ''A'', amount_s = 10, count_s = 1,
            percentage = 2345624805922133 / 70368744177664\<rparr>,
          \<lparr>category_s = ''B'', amount_s = 10, count_s = 1,
            percentage = 2345624805922133 / 70368744177664\<rparr>,
          \<lparr>category_s = ''C'', amount_s = 10, count_s = 1,
            percentage = 2345624805922133 / 70368744177664\<rparr>]
   \<and> windowOf Monthly isoDates mid_march thirds = thirds
   \<and> 0 < totalExpenses
        (periodQueryOn exact Monthly isoDates (new_AnalyticsEngine isoDates thirds) mid_march)
   \<and> length (remdups (map category
         (filter (\<lambda>t. type_t t = expense) (windowOf Monthly isoDates mid_march thirds)))) \<le> 5
   \<and> sum_list (map percentage (topCategories
        (periodQueryOn exact Monthly isoDates (new_AnalyticsEngine isoDates thirds) mid_march)))
       = 100"
proof -
  have m: "monotoneRounding (rounding (doubles 0))" by (simp add: host_fields monotone_fl)
  from period_topCategories [OF m, of Monthly isoDates thirds mid_march]
  have t: "topCategoriesOf
        (periodQueryOn (doubles 0) Monthly isoDates (new_AnalyticsEngine isoDates thirds) mid_march)
        (windowOf Monthly isoDates mid_march thirds)"
    and p: "percentagesAddUp
        (periodQueryOn exact Monthly isoDates (new_AnalyticsEngine isoDates thirds) mid_march)
        (windowOf Monthly isoDates mid_march thirds)"
    by blast+
  have l: "length (remdups (map category
         (filter (\<lambda>t. type_t t = expense) (windowOf Monthly isoDates mid_march thirds)))) \<le> 5"
    unfolding thirds_windowOf by (simp add: thirds_def thirds_fields)
  from p l have s: "sum_list (map percentage (topCategories
        (periodQueryOn exact Monthly isoDates (new_AnalyticsEngine isoDates thirds) mid_march)))
       = 100"
    unfolding percentagesAddUp_def thirds_expenses by simp
  from m t thirds_on_doubles(1) [of 0] thirds_windowOf thirds_expenses(2) l s
  show ?thesis by simp
qed

end
